theory Spec2Isabelle
  imports Complex_Main "HOL-Library.Word" "HOL-Library.List_Lexorder" "HOL-Library.Char_ord"
begin

unbundle bit_operations_syntax

section \<open>Numbers and vectors\<close>

text \<open>
  JavaScript numbers are idealised as real numbers: every finite double stands for the real
  it denotes and arithmetic is exact. The two places where the source can divide by zero
  are written out: \<open>Vector3.normalize\<close> divides by \<open>length() || 1\<close>, and
  \<open>closestPointOnSegment\<close> divides by the squared length of the segment, which is
  \<open>0/0 = NaN\<close> for a segment of length zero. A vector whose components are NaN is
  the value \<open>None\<close> of an option; a comparison with NaN is false.

  \<open>Vector3\<close> is the vector class of three.js, which the repository imports; its
  operations follow the library (\<open>length\<close> is the square root of the sum of the squared
  components, \<open>distanceTo\<close> the square root of \<open>distanceToSquared\<close>,
  \<open>normalize\<close> is \<open>divideScalar(length() || 1)\<close>).
\<close>

datatype Vector3 = Vector3 (vx: real) (vy: real) (vz: real)

definition addV :: "Vector3 \<Rightarrow> Vector3 \<Rightarrow> Vector3" where
  "addV a b = Vector3 (vx a + vx b) (vy a + vy b) (vz a + vz b)"

definition subV :: "Vector3 \<Rightarrow> Vector3 \<Rightarrow> Vector3" where
  "subV a b = Vector3 (vx a - vx b) (vy a - vy b) (vz a - vz b)"

definition subVectors :: "Vector3 \<Rightarrow> Vector3 \<Rightarrow> Vector3" where
  "subVectors a b = Vector3 (vx a - vx b) (vy a - vy b) (vz a - vz b)"

definition multiplyScalar :: "Vector3 \<Rightarrow> real \<Rightarrow> Vector3" where
  "multiplyScalar v s = Vector3 (vx v * s) (vy v * s) (vz v * s)"

definition addScaledVector :: "Vector3 \<Rightarrow> Vector3 \<Rightarrow> real \<Rightarrow> Vector3" where
  "addScaledVector this v s = Vector3 (vx this + vx v * s) (vy this + vy v * s) (vz this + vz v * s)"

definition negate :: "Vector3 \<Rightarrow> Vector3" where
  "negate v = Vector3 (- vx v) (- vy v) (- vz v)"

definition dot :: "Vector3 \<Rightarrow> Vector3 \<Rightarrow> real" where
  "dot a b = vx a * vx b + vy a * vy b + vz a * vz b"

definition lengthSq :: "Vector3 \<Rightarrow> real" where
  "lengthSq v = vx v * vx v + vy v * vy v + vz v * vz v"

definition lengthV :: "Vector3 \<Rightarrow> real" where
  "lengthV v = sqrt (vx v * vx v + vy v * vy v + vz v * vz v)"

definition distanceToSquared :: "Vector3 \<Rightarrow> Vector3 \<Rightarrow> real" where
  "distanceToSquared a b =
     (let dx = vx a - vx b; dy = vy a - vy b; dz = vz a - vz b
      in dx * dx + dy * dy + dz * dz)"

definition distanceTo :: "Vector3 \<Rightarrow> Vector3 \<Rightarrow> real" where
  "distanceTo a b = sqrt (distanceToSquared a b)"

definition divideScalar :: "Vector3 \<Rightarrow> real \<Rightarrow> Vector3" where
  "divideScalar v s = multiplyScalar v (1 / s)"

definition normalize :: "Vector3 \<Rightarrow> Vector3" where
  \<comment> \<open>\<open>length() || 1\<close>: a zero length is replaced by 1, so the zero vector stays zero.\<close>
  "normalize v = divideScalar v (if lengthV v = 0 then 1 else lengthV v)"

definition zeroV :: Vector3 where
  "zeroV = Vector3 0 0 0"

section \<open>Colliders\<close>

text \<open>
  \<open>ColliderType\<close> is the tag table of \<open>Collider.js\<close>; it has three entries.
\<close>

datatype ColliderType = SPHERE | BOX | CAPSULE

text \<open>
  The four collider classes, with the fields each constructor adds. A box keeps no bounds
  here: \<open>min\<close> and \<open>max\<close> are caches that \<open>updateBounds\<close> overwrites before every
  read in \<open>BoxCollider\<close>, and likewise \<open>pointA\<close>, \<open>pointB\<close> of a capsule. The
  cylinder's \<open>min\<close> and \<open>max\<close> are written by its \<open>updateWorldPosition\<close> and read
  later by \<open>intersectsSphere\<close>, so they are part of its state.
\<close>

datatype Shape =
    SphereShape real
  | BoxShape Vector3
  | CapsuleShape real real
  | CylinderShape real real Vector3 Vector3

type_synonym ref = nat

record Collider =
  idC :: string
  shape :: Shape
  layer :: "32 word"
  collidesWithMask :: "32 word"
  isTrigger :: bool
  isStatic :: bool
  enabled :: bool
  parent :: "ref option"
  offset :: Vector3
  worldPosition :: Vector3
  positionIsNaN :: bool
  onCollisionEnter :: bool
  onCollisionStay :: bool
  onCollisionExit :: bool
  activeCollisions :: "string list"

text \<open>
  \<open>idC\<close> is the field \<open>id\<close>. \<open>parent\<close> is a reference to a transform object whose
  \<open>position\<close> lives in a store of transforms, since several colliders may hang on one
  parent. \<open>positionIsNaN\<close> says that the components of \<open>worldPosition\<close> are NaN
  (the vector in \<open>worldPosition\<close> then stands for nothing); it becomes true when the
  position is read from a parent whose position is NaN. The three callback slots record
  whether a handler is installed; a call of an installed handler is an entry of the event
  log below. \<open>activeCollisions\<close> is the \<open>Set\<close> of ids in insertion order.

  The \<open>type\<close> field is set by the constructors: every subclass passes its tag to
  \<open>Collider\<close>, which stores \<open>options.type || ColliderType.SPHERE\<close>.
  \<open>CylinderCollider\<close> passes \<open>ColliderType.CYLINDER\<close>, which the table does not
  define, so a cylinder is tagged \<open>SPHERE\<close>.
\<close>

definition ctype :: "Collider \<Rightarrow> ColliderType" where
  "ctype c = (case shape c of
       SphereShape r \<Rightarrow> SPHERE
     | BoxShape s \<Rightarrow> BOX
     | CapsuleShape r h \<Rightarrow> CAPSULE
     | CylinderShape r h mn mx \<Rightarrow> SPHERE)"

text \<open>
  \<open>radius\<close>: a box has no such field. Its only read on a box is
  \<open>other.radius || 0\<close> in \<open>CapsuleCollider.getCollisionResponse\<close>, which gives 0.
\<close>

definition radius :: "Collider \<Rightarrow> real" where
  "radius c = (case shape c of
       SphereShape r \<Rightarrow> r
     | BoxShape s \<Rightarrow> 0
     | CapsuleShape r h \<Rightarrow> r
     | CylinderShape r h mn mx \<Rightarrow> r)"

definition height :: "Collider \<Rightarrow> real" where
  "height c = (case shape c of
       CapsuleShape r h \<Rightarrow> h
     | CylinderShape r h mn mx \<Rightarrow> h
     | _ \<Rightarrow> 0)"

definition sizeB :: "Collider \<Rightarrow> Vector3" where
  "sizeB c = (case shape c of BoxShape s \<Rightarrow> s | _ \<Rightarrow> zeroV)"

text \<open>
  \<open>updateWorldPosition\<close> reads the position of the parent: \<open>T\<close> gives the positions
  of the transforms and \<open>N\<close> is the set of transforms whose position is NaN. The
  bounds of a cylinder are computed from the world position in the same call, so they are
  NaN exactly when the world position is.
\<close>

definition Collider_updateWorldPosition ::
  "(ref \<Rightarrow> Vector3) \<Rightarrow> ref set \<Rightarrow> Collider \<Rightarrow> Collider" where
  "Collider_updateWorldPosition T N c =
     (case parent c of
        Some p \<Rightarrow> c\<lparr>worldPosition := addV (T p) (offset c), positionIsNaN := (p \<in> N)\<rparr>
      | None \<Rightarrow> c)"

definition CylinderCollider_updateWorldPosition ::
  "(ref \<Rightarrow> Vector3) \<Rightarrow> ref set \<Rightarrow> Collider \<Rightarrow> Collider" where
  "CylinderCollider_updateWorldPosition T N c =
     (let c1 = Collider_updateWorldPosition T N c;
          halfHeight = height c1 / 2;
          w = worldPosition c1
      in c1\<lparr>shape := CylinderShape (radius c1) (height c1)
             (Vector3 (vx w - radius c1) (vy w - halfHeight) (vz w - radius c1))
             (Vector3 (vx w + radius c1) (vy w + halfHeight) (vz w + radius c1))\<rparr>)"

definition updateWorldPosition :: "(ref \<Rightarrow> Vector3) \<Rightarrow> ref set \<Rightarrow> Collider \<Rightarrow> Collider" where
  "updateWorldPosition T N c =
     (case shape c of
        CylinderShape r h mn mx \<Rightarrow> CylinderCollider_updateWorldPosition T N c
      | _ \<Rightarrow> Collider_updateWorldPosition T N c)"

text \<open>
  \<open>canCollideWith\<close> compares object identities (\<open>this === other\<close>); the colliders are
  objects of a heap and the method takes their references.
\<close>

definition canCollideWith :: "(ref \<Rightarrow> Collider) \<Rightarrow> ref \<Rightarrow> ref \<Rightarrow> bool" where
  "canCollideWith h this other =
     (if \<not> enabled (h this) \<or> \<not> enabled (h other) then False
      else if this = other then False
      else (let thisCanHitOther = (collidesWithMask (h this) AND layer (h other)) \<noteq> 0;
                otherCanHitThis = (collidesWithMask (h other) AND layer (h this)) \<noteq> 0
            in thisCanHitOther \<and> otherCanHitThis))"

section \<open>Shape tests and responses\<close>

text \<open>
  The shape methods below are written for colliders whose world positions are numbers;
  the system functions further down say what happens when a position is NaN.
\<close>

record Response =
  direction :: Vector3
  overlap :: real
  normal :: Vector3

subsection \<open>SphereCollider\<close>

definition SphereCollider_intersectsSphere :: "Collider \<Rightarrow> Collider \<Rightarrow> bool" where
  "SphereCollider_intersectsSphere this other =
     (let distance = distanceTo (worldPosition this) (worldPosition other);
          combinedRadius = radius this + radius other
      in distance < combinedRadius)"

definition SphereCollider_getCollisionResponse :: "Collider \<Rightarrow> Collider \<Rightarrow> Response" where
  "SphereCollider_getCollisionResponse this other =
     (let dir = normalize (subVectors (worldPosition this) (worldPosition other));
          distance = distanceTo (worldPosition this) (worldPosition other);
          ov = radius this + radius other - distance
      in \<lparr>direction = dir, overlap = max 0 ov, normal = dir\<rparr>)"

subsection \<open>BoxCollider\<close>

definition updateBounds :: "Collider \<Rightarrow> Vector3 \<times> Vector3" where
  "updateBounds this =
     (let halfSize = multiplyScalar (sizeB this) (1 / 2)
      in (subV (worldPosition this) halfSize, addV (worldPosition this) halfSize))"

definition BoxCollider_intersectsBox :: "Collider \<Rightarrow> Collider \<Rightarrow> bool" where
  "BoxCollider_intersectsBox this other =
     (let (tmin, tmax) = updateBounds this;
          (omin, omax) = updateBounds other
      in vx tmin \<le> vx omax \<and> vx tmax \<ge> vx omin \<and>
         vy tmin \<le> vy omax \<and> vy tmax \<ge> vy omin \<and>
         vz tmin \<le> vz omax \<and> vz tmax \<ge> vz omin)"

text \<open>
  The sphere argument of \<open>intersectsSphere\<close> and \<open>getCollisionResponseForSphere\<close>
  is read through \<open>worldPosition\<close> and \<open>radius\<close> only (the system also passes an
  object literal with just these two fields).
\<close>

definition closestInBounds :: "Vector3 \<Rightarrow> Vector3 \<Rightarrow> Vector3 \<Rightarrow> Vector3" where
  \<comment> \<open>the three \<open>Math.max(min, Math.min(p, max))\<close> lines that each method repeats\<close>
  "closestInBounds bmin bmax p =
     Vector3 (max (vx bmin) (min (vx p) (vx bmax)))
             (max (vy bmin) (min (vy p) (vy bmax)))
             (max (vz bmin) (min (vz p) (vz bmax)))"

definition BoxCollider_intersectsSphere :: "Collider \<Rightarrow> Vector3 \<Rightarrow> real \<Rightarrow> bool" where
  "BoxCollider_intersectsSphere this spos sradius =
     (let (bmin, bmax) = updateBounds this;
          closest = closestInBounds bmin bmax spos;
          distance = distanceTo closest spos
      in distance < sradius)"

definition BoxCollider_getCollisionResponseForSphere :: "Collider \<Rightarrow> Vector3 \<Rightarrow> real \<Rightarrow> Response" where
  "BoxCollider_getCollisionResponseForSphere this spos sradius =
     (let (bmin, bmax) = updateBounds this;
          closest = closestInBounds bmin bmax spos;
          dir = normalize (subVectors spos closest);
          distance = distanceTo closest spos;
          ov = sradius - distance
      in \<lparr>direction = dir, overlap = max 0 ov, normal = dir\<rparr>)"

subsection \<open>CapsuleCollider\<close>

definition updateCapsulePoints :: "Collider \<Rightarrow> Vector3 \<times> Vector3" where
  "updateCapsulePoints this =
     (let halfHeight = (height this - radius this * 2) / 2;
          w = worldPosition this
      in (Vector3 (vx w) (vy w - halfHeight) (vz w), Vector3 (vx w) (vy w + halfHeight) (vz w)))"

text \<open>
  The closest point on a segment of length zero is \<open>segStart + seg * (0/0)\<close>, a vector
  of three NaN: \<open>None\<close>.
\<close>

definition closestPointOnSegment :: "Vector3 \<Rightarrow> Vector3 \<Rightarrow> Vector3 \<Rightarrow> Vector3 option" where
  "closestPointOnSegment point segStart segEnd =
     (let seg = subVectors segEnd segStart
      in if lengthSq seg = 0 then None
         else (let t = max 0 (min 1 (dot (subVectors point segStart) seg / lengthSq seg))
               in Some (addScaledVector segStart seg t)))"

definition closestPointsOnSegments ::
  "Vector3 \<Rightarrow> Vector3 \<Rightarrow> Vector3 \<Rightarrow> Vector3 \<Rightarrow> Vector3 \<times> Vector3" where
  "closestPointsOnSegments a1 a2 b1 b2 =
     (let d1 = subVectors a2 a1;
          d2 = subVectors b2 b1;
          r = subVectors a1 b1;
          a = dot d1 d1;
          e = dot d2 d2;
          f = dot d2 r;
          (s, t) =
            (if a \<le> 1 / 10000 \<and> e \<le> 1 / 10000 then (0, 0)
             else if a \<le> 1 / 10000 then (0, max 0 (min 1 (f / e)))
             else (let c = dot d1 r
                   in if e \<le> 1 / 10000 then (max 0 (min 1 (- c / a)), 0)
                      else (let b = dot d1 d2;
                                denom = a * e - b * b;
                                s0 = (if denom \<noteq> 0 then max 0 (min 1 ((b * f - c * e) / denom)) else 0);
                                t0 = (b * s0 + f) / e
                            in if t0 < 0 then (max 0 (min 1 (- c / a)), 0)
                               else if t0 > 1 then (max 0 (min 1 ((b - c) / a)), 1)
                               else (s0, t0))))
      in (addScaledVector a1 d1 s, addScaledVector b1 d2 t))"

definition CapsuleCollider_intersectsCapsule :: "Collider \<Rightarrow> Collider \<Rightarrow> bool" where
  "CapsuleCollider_intersectsCapsule this other =
     (let (pA, pB) = updateCapsulePoints this;
          (oA, oB) = updateCapsulePoints other;
          (closestA, closestB) = closestPointsOnSegments pA pB oA oB;
          distance = distanceTo closestA closestB;
          combinedRadius = radius this + radius other
      in distance < combinedRadius)"

text \<open>A capsule whose segment has length zero meets no sphere: the distance is NaN.\<close>

definition CapsuleCollider_intersectsSphere :: "Collider \<Rightarrow> Vector3 \<Rightarrow> real \<Rightarrow> bool" where
  "CapsuleCollider_intersectsSphere this spos sradius =
     (let (pA, pB) = updateCapsulePoints this
      in case closestPointOnSegment spos pA pB of
           None \<Rightarrow> False
         | Some closest \<Rightarrow>
             (let distance = distanceTo closest spos;
                  combinedRadius = radius this + sradius
              in distance < combinedRadius))"

text \<open>
  The response is \<open>None\<close> when its direction and normal are NaN vectors (the overlap,
  \<open>Math.max(0, NaN)\<close>, is NaN too).
\<close>

definition CapsuleCollider_getCollisionResponse :: "Collider \<Rightarrow> Collider \<Rightarrow> Response option" where
  "CapsuleCollider_getCollisionResponse this other =
     (let (pA, pB) = updateCapsulePoints this;
          points =
            (if ctype other = CAPSULE
             then (let (oA, oB) = updateCapsulePoints other
                   in Some (closestPointsOnSegments pA pB oA oB))
             else (case closestPointOnSegment (worldPosition other) pA pB of
                     None \<Rightarrow> None
                   | Some c \<Rightarrow> Some (c, worldPosition other)))
      in case points of
           None \<Rightarrow> None
         | Some (closestOnThis, closestOnOther) \<Rightarrow>
             (let dir = normalize (subVectors closestOnThis closestOnOther);
                  distance = distanceTo closestOnThis closestOnOther;
                  combinedRadius = radius this + radius other;
                  ov = combinedRadius - distance
              in Some \<lparr>direction = dir, overlap = max 0 ov, normal = dir\<rparr>))"

subsection \<open>CylinderCollider\<close>

definition cylMin :: "Collider \<Rightarrow> Vector3" where
  "cylMin c = (case shape c of CylinderShape r h mn mx \<Rightarrow> mn | _ \<Rightarrow> zeroV)"

definition cylMax :: "Collider \<Rightarrow> Vector3" where
  "cylMax c = (case shape c of CylinderShape r h mn mx \<Rightarrow> mx | _ \<Rightarrow> zeroV)"

definition CylinderCollider_intersectsSphere :: "Collider \<Rightarrow> Vector3 \<Rightarrow> real \<Rightarrow> bool" where
  "CylinderCollider_intersectsSphere this spos sradius =
     (let closestY = max (vy (cylMin this)) (min (vy spos) (vy (cylMax this)));
          dx = vx spos - vx (worldPosition this);
          dz = vz spos - vz (worldPosition this);
          distSqHorizontal = dx * dx + dz * dz
      in if distSqHorizontal > (radius this + sradius) ^ 2 then False
         else (let closestOnAxis = Vector3 (vx (worldPosition this)) closestY (vz (worldPosition this));
                   toSphere = Vector3 dx 0 dz;
                   closestOnSurface =
                     (if lengthSq toSphere > 0
                      then addV closestOnAxis (multiplyScalar (normalize toSphere) (radius this))
                      else closestOnAxis)
               in distanceTo closestOnSurface spos < sradius))"

text \<open>
  \<open>intersectsBox\<close> first calls \<open>this.updateWorldPosition()\<close> and
  \<open>boxCollider.updateBounds()\<close>; the value returned is modelled. With a NaN position
  the bounds test lets the pair pass and the last comparison is false.
\<close>

definition CylinderCollider_intersectsBox ::
  "(ref \<Rightarrow> Vector3) \<Rightarrow> ref set \<Rightarrow> Collider \<Rightarrow> Collider \<Rightarrow> bool" where
  "CylinderCollider_intersectsBox T N this0 boxCollider =
     (let this = CylinderCollider_updateWorldPosition T N this0;
          (bmin, bmax) = updateBounds boxCollider;
          tmin = cylMin this; tmax = cylMax this
      in if positionIsNaN this \<or> positionIsNaN boxCollider then False
         else if vx tmax < vx bmin \<or> vx tmin > vx bmax \<or>
            vy tmax < vy bmin \<or> vy tmin > vy bmax \<or>
            vz tmax < vz bmin \<or> vz tmin > vz bmax then False
         else (let closestX = max (vx bmin) (min (vx (worldPosition this)) (vx bmax));
                   closestZ = max (vz bmin) (min (vz (worldPosition this)) (vz bmax));
                   dx = closestX - vx (worldPosition this);
                   dz = closestZ - vz (worldPosition this)
               in dx * dx + dz * dz < radius this * radius this))"

text \<open>
  Two values the cylinder tests compute and compare: the point \<open>closestOnSurface\<close> of
  \<open>intersectsSphere\<close>, whose distance to the sphere's centre is compared with the
  sphere's radius, and the sum \<open>dx * dx + dz * dz\<close> of \<open>intersectsBox\<close>, the squared
  horizontal distance of the axis to the box, which is compared with the squared radius.
\<close>

definition closestOnSurface :: "Collider \<Rightarrow> Vector3 \<Rightarrow> Vector3" where
  "closestOnSurface this spos =
     (let closestY = max (vy (cylMin this)) (min (vy spos) (vy (cylMax this)));
          dx = vx spos - vx (worldPosition this);
          dz = vz spos - vz (worldPosition this);
          closestOnAxis = Vector3 (vx (worldPosition this)) closestY (vz (worldPosition this));
          toSphere = Vector3 dx 0 dz
      in if lengthSq toSphere > 0
         then addV closestOnAxis (multiplyScalar (normalize toSphere) (radius this))
         else closestOnAxis)"

definition horizontalDistSq :: "Collider \<Rightarrow> Vector3 \<Rightarrow> Vector3 \<Rightarrow> real" where
  "horizontalDistSq this bmin bmax =
     (let closestX = max (vx bmin) (min (vx (worldPosition this)) (vx bmax));
          closestZ = max (vz bmin) (min (vz (worldPosition this)) (vz bmax));
          dx = closestX - vx (worldPosition this);
          dz = closestZ - vz (worldPosition this)
      in dx * dx + dz * dz)"

text \<open>
  \<open>getCollisionResponseForBox\<close> reads the box's \<open>min\<close> and \<open>max\<close> as its last
  \<open>updateBounds\<close> left them; they are the parameters \<open>bmin\<close>, \<open>bmax\<close>.
\<close>

definition CylinderCollider_getCollisionResponseForBox :: "Collider \<Rightarrow> Vector3 \<Rightarrow> Vector3 \<Rightarrow> Response" where
  "CylinderCollider_getCollisionResponseForBox this bmin bmax =
     (let w = worldPosition this;
          closest = closestInBounds bmin bmax w;
          inside = (vx w > vx bmin \<and> vx w < vx bmax \<and>
                    vy w > vy bmin \<and> vy w < vy bmax \<and>
                    vz w > vz bmin \<and> vz w < vz bmax);
          dir0 = subVectors w closest;
          distance = lengthV dir0
      in if inside \<or> distance < 1 / 1000
         then (let dx1 = vx w - vx bmin; dx2 = vx bmax - vx w;
                   dy1 = vy w - vy bmin; dy2 = vy bmax - vy w;
                   dz1 = vz w - vz bmin; dz2 = vz bmax - vz w;
                   minD = min dx1 (min dx2 (min dy1 (min dy2 (min dz1 dz2))));
                   dir = (if minD = dx1 then Vector3 1 0 0
                          else if minD = dx2 then Vector3 (- 1) 0 0
                          else if minD = dy1 then Vector3 0 1 0
                          else if minD = dy2 then Vector3 0 (- 1) 0
                          else if minD = dz1 then Vector3 0 0 1
                          else Vector3 0 0 (- 1))
               in \<lparr>direction = dir, overlap = minD + radius this, normal = dir\<rparr>)
         else (let dir = normalize dir0;
                   isVerticalCollision =
                     (vx w \<ge> vx bmin \<and> vx w \<le> vx bmax \<and> vz w \<ge> vz bmin \<and> vz w \<le> vz bmax);
                   ov = (if isVerticalCollision
                         then (let halfHeight = height this / 2;
                                   distY = \<bar>vy w - vy closest\<bar>
                               in halfHeight - distY)
                         else radius this - distance)
               in \<lparr>direction = dir, overlap = max 0 ov, normal = dir\<rparr>))"

section \<open>CollisionSystem: the pair test and the response\<close>

datatype error = TypeError

text \<open>
  Method calls are resolved by the receiver's class. Every class defines
  \<open>intersectsSphere\<close>; \<open>getCollisionResponse\<close> exists on spheres and capsules only,
  and calling it on a box or a cylinder raises a \<open>TypeError\<close>.
\<close>

definition intersectsSphere :: "Collider \<Rightarrow> Collider \<Rightarrow> bool" where
  "intersectsSphere this s =
     (case shape this of
        SphereShape r \<Rightarrow> SphereCollider_intersectsSphere this s
      | BoxShape sz \<Rightarrow> BoxCollider_intersectsSphere this (worldPosition s) (radius s)
      | CapsuleShape r h \<Rightarrow> CapsuleCollider_intersectsSphere this (worldPosition s) (radius s)
      | CylinderShape r h mn mx \<Rightarrow> CylinderCollider_intersectsSphere this (worldPosition s) (radius s))"

definition getCollisionResponse_method :: "Collider \<Rightarrow> Collider \<Rightarrow> error + Response option" where
  "getCollisionResponse_method this other =
     (case shape this of
        SphereShape r \<Rightarrow> Inr (Some (SphereCollider_getCollisionResponse this other))
      | CapsuleShape r h \<Rightarrow> Inr (CapsuleCollider_getCollisionResponse this other)
      | BoxShape sz \<Rightarrow> Inl TypeError
      | CylinderShape r h mn mx \<Rightarrow> Inl TypeError)"

text \<open>
  \<open>checkCollision\<close> after its gate \<open>canCollideWith\<close> and the two
  \<open>updateWorldPosition\<close> calls: the chain of tests on the type tags.
\<close>

definition checkCollision_types :: "Collider \<Rightarrow> Collider \<Rightarrow> bool" where
  "checkCollision_types a b =
     (if ctype a = SPHERE \<and> ctype b = SPHERE then intersectsSphere a b
      else if ctype a = CAPSULE \<and> ctype b = CAPSULE then CapsuleCollider_intersectsCapsule a b
      else if ctype a = CAPSULE \<and> ctype b = SPHERE then intersectsSphere a b
      else if ctype a = SPHERE \<and> ctype b = CAPSULE then intersectsSphere b a
      else if ctype a = BOX \<and> ctype b = BOX then BoxCollider_intersectsBox a b
      else if ctype a = BOX \<and> ctype b = SPHERE then intersectsSphere a b
      else if ctype a = SPHERE \<and> ctype b = BOX then intersectsSphere b a
      else if ctype a = BOX \<and> ctype b = CAPSULE
        then BoxCollider_intersectsSphere a (worldPosition b) (radius b)
      else if ctype a = CAPSULE \<and> ctype b = BOX
        then BoxCollider_intersectsSphere b (worldPosition a) (radius a)
      else False)"

definition getCollisionResponse_types :: "Collider \<Rightarrow> Collider \<Rightarrow> error + Response option" where
  "getCollisionResponse_types a b =
     (if ctype a = SPHERE \<and> ctype b = SPHERE then getCollisionResponse_method a b
      else if ctype a = SPHERE \<and> ctype b = BOX
        then Inr (Some (BoxCollider_getCollisionResponseForSphere b (worldPosition a) (radius a)))
      else if ctype a = CAPSULE then getCollisionResponse_method a b
      else if ctype a = BOX \<and> ctype b = SPHERE
        then Inr (Some (BoxCollider_getCollisionResponseForSphere a (worldPosition b) (radius b)))
      else (let dir = normalize (subVectors (worldPosition a) (worldPosition b))
            in Inr (Some \<lparr>direction = dir, overlap = 1 / 10, normal = dir\<rparr>)))"

section \<open>CollisionSystem: registry, tick and resolution\<close>

text \<open>
  A call of an installed callback is an event: the receiver, the other collider and, for
  enter and stay, the response passed (\<open>None\<close> when its direction is NaN). The handlers
  are taken to observe only: they do not change colliders, transforms or the registry.
\<close>

datatype event =
    CollisionEnter ref ref "Response option"
  | CollisionStay ref ref "Response option"
  | CollisionExit ref ref

text \<open>
  The state: the collider objects, the positions of the parent transforms, the set of the
  transforms whose position is NaN (for them \<open>transforms\<close> stands for nothing), the map
  \<open>colliders\<close> from id to collider in insertion order, the lines written by
  \<open>console.warn\<close> and the callback calls made so far. The statistics counters and the
  debug meshes are left out.
\<close>

record World =
  heap :: "ref \<Rightarrow> Collider"
  transforms :: "ref \<Rightarrow> Vector3"
  nanPositions :: "ref set"
  colliders :: "(string \<times> ref) list"
  warnings :: "string list"
  events :: "event list"

definition addCollider :: "World \<Rightarrow> ref \<Rightarrow> World \<times> ref option" where
  "addCollider w r =
     (if map_of (colliders w) (idC (heap w r)) \<noteq> None
      then (w\<lparr>warnings := warnings w @
                [''[CollisionSystem] Collider '' @ idC (heap w r) @ '' already exists'']\<rparr>, None)
      else (w\<lparr>colliders := colliders w @ [(idC (heap w r), r)]\<rparr>, Some r))"

definition dispose :: "Collider \<Rightarrow> Collider" where
  "dispose c = c\<lparr>activeCollisions := []\<rparr>"

definition removeCollider :: "World \<Rightarrow> string \<Rightarrow> World" where
  "removeCollider w colliderId =
     (case map_of (colliders w) colliderId of
        None \<Rightarrow> w
      | Some r \<Rightarrow> w\<lparr>heap := (heap w)(r := dispose (heap w r)),
                    colliders := filter (\<lambda>e. fst e \<noteq> colliderId) (colliders w)\<rparr>)"

definition getCollider :: "World \<Rightarrow> string \<Rightarrow> ref option" where
  "getCollider w colliderId = map_of (colliders w) colliderId"

definition refreshPosition :: "World \<Rightarrow> ref \<Rightarrow> World" where
  \<comment> \<open>\<open>collider.updateWorldPosition()\<close> on the object \<open>r\<close>\<close>
  "refreshPosition w r =
     w\<lparr>heap := (heap w)(r := updateWorldPosition (transforms w) (nanPositions w) (heap w r))\<rparr>"

text \<open>
  With a NaN world position on either side every test of \<open>checkCollision\<close> answers
  false: each ends in a comparison with a NaN distance or a NaN bound.
\<close>

definition checkCollision :: "World \<Rightarrow> ref \<Rightarrow> ref \<Rightarrow> bool \<times> World" where
  "checkCollision w a b =
     (if \<not> canCollideWith (heap w) a b then (False, w)
      else (let w1 = refreshPosition (refreshPosition w a) b
            in (if positionIsNaN (heap w1 a) \<or> positionIsNaN (heap w1 b) then False
                else checkCollision_types (heap w1 a) (heap w1 b), w1)))"

text \<open>
  With a NaN world position on either side the direction of every response is NaN (the
  tick asks for a response only after a test has answered true, so not in that case).
\<close>

definition getCollisionResponse ::
  "World \<Rightarrow> ref \<Rightarrow> ref \<Rightarrow> (error + Response option) \<times> World" where
  "getCollisionResponse w a b =
     (let w1 = refreshPosition (refreshPosition w a) b
      in (case getCollisionResponse_types (heap w1 a) (heap w1 b) of
            Inl e \<Rightarrow> Inl e
          | Inr response \<Rightarrow>
              if positionIsNaN (heap w1 a) \<or> positionIsNaN (heap w1 b) then Inr None
              else Inr response, w1))"

text \<open>
  \<open>position.add(v)\<close> and \<open>position.sub(v)\<close> on the parent, if there is one. Adding
  a NaN vector makes the position NaN; a NaN position stays NaN.
\<close>

definition positionAdd :: "World \<Rightarrow> ref option \<Rightarrow> Vector3 option \<Rightarrow> World" where
  "positionAdd w p v =
     (case p of None \<Rightarrow> w
      | Some t \<Rightarrow>
          (case v of
             Some u \<Rightarrow> w\<lparr>transforms := (transforms w)(t := addV (transforms w t) u)\<rparr>
           | None \<Rightarrow> w\<lparr>nanPositions := insert t (nanPositions w)\<rparr>))"

definition positionSub :: "World \<Rightarrow> ref option \<Rightarrow> Vector3 option \<Rightarrow> World" where
  "positionSub w p v =
     (case p of None \<Rightarrow> w
      | Some t \<Rightarrow>
          (case v of
             Some u \<Rightarrow> w\<lparr>transforms := (transforms w)(t := subV (transforms w t) u)\<rparr>
           | None \<Rightarrow> w\<lparr>nanPositions := insert t (nanPositions w)\<rparr>))"

definition resolveCollision :: "World \<Rightarrow> ref \<Rightarrow> ref \<Rightarrow> Response option \<Rightarrow> World" where
  "resolveCollision w a b response =
     (if isTrigger (heap w a) \<or> isTrigger (heap w b) then w
      else if isStatic (heap w a) \<and> isStatic (heap w b) then w
      else (let pushVector = map_option (\<lambda>r. multiplyScalar (direction r) (overlap r)) response
            in if isStatic (heap w a) then positionSub w (parent (heap w b)) pushVector
               else if isStatic (heap w b) then positionAdd w (parent (heap w a)) pushVector
               else (let halfPush = map_option (\<lambda>v. multiplyScalar v (1 / 2)) pushVector
                     in positionSub (positionAdd w (parent (heap w a)) halfPush)
                          (parent (heap w b)) halfPush)))"

definition pairKey :: "string \<Rightarrow> string \<Rightarrow> string" where
  "pairKey x y = (if x < y then x @ '':'' @ y else y @ '':'' @ x)"

definition setAdd :: "string \<Rightarrow> string list \<Rightarrow> string list" where
  \<comment> \<open>\<open>Set.add\<close>\<close>
  "setAdd k ks = (if k \<in> set ks then ks else ks @ [k])"

definition activeAdd :: "World \<Rightarrow> ref \<Rightarrow> string \<Rightarrow> World" where
  "activeAdd w r k =
     w\<lparr>heap := (heap w)(r := (heap w r)\<lparr>activeCollisions := setAdd k (activeCollisions (heap w r))\<rparr>)\<rparr>"

definition emit :: "World \<Rightarrow> bool \<Rightarrow> event \<Rightarrow> World" where
  \<comment> \<open>\<open>if (handler) handler(...)\<close>\<close>
  "emit w installed e = (if installed then w\<lparr>events := events w @ [e]\<rparr> else w)"

definition responseForB :: "Response option \<Rightarrow> Response option" where
  "responseForB response =
     map_option (\<lambda>r. r\<lparr>normal := negate (normal r), direction := negate (direction r)\<rparr>) response"

text \<open>
  The body of the pair loop of \<open>update\<close> for the colliders \<open>a\<close>, \<open>b\<close>;
  \<open>cur\<close> is the key set of \<open>currentCollisions\<close>. A \<open>TypeError\<close> raised by
  \<open>getCollisionResponse\<close> leaves \<open>update\<close> at once, with the state as it is then.
\<close>

definition pairStep :: "ref \<Rightarrow> ref \<Rightarrow> World \<times> string set \<Rightarrow> error option \<times> World \<times> string set" where
  "pairStep a b s =
     (let (w, cur) = s;
          (hit, w1) = checkCollision w a b
      in if hit
         then (let cur1 = insert (pairKey (idC (heap w1 a)) (idC (heap w1 b))) cur;
                   wasCollidingA = idC (heap w1 b) \<in> set (activeCollisions (heap w1 a));
                   (res, w2) = getCollisionResponse w1 a b
               in case res of
                    Inl e \<Rightarrow> (Some e, w2, cur1)
                  | Inr response \<Rightarrow>
                      (let w3 =
                         (if \<not> wasCollidingA
                          then (let w4 = activeAdd w2 a (idC (heap w2 b));
                                    w5 = activeAdd w4 b (idC (heap w4 a));
                                    w6 = emit w5 (onCollisionEnter (heap w5 a)) (CollisionEnter a b response)
                                in emit w6 (onCollisionEnter (heap w6 b))
                                     (CollisionEnter b a (responseForB response)))
                          else (let w6 = emit w2 (onCollisionStay (heap w2 a)) (CollisionStay a b response)
                                in emit w6 (onCollisionStay (heap w6 b))
                                     (CollisionStay b a (responseForB response))))
                       in (None, resolveCollision w3 a b response, cur1)))
         else (None, w1, cur))"

fun innerLoop :: "ref \<Rightarrow> ref list \<Rightarrow> World \<times> string set \<Rightarrow> error option \<times> World \<times> string set" where
  "innerLoop a [] s = (None, s)"
| "innerLoop a (b # bs) s =
     (case pairStep a b s of
        (Some e, s') \<Rightarrow> (Some e, s')
      | (None, s') \<Rightarrow> innerLoop a bs s')"

fun outerLoop :: "ref list \<Rightarrow> World \<times> string set \<Rightarrow> error option \<times> World \<times> string set" where
  "outerLoop [] s = (None, s)"
| "outerLoop (a # rest) s =
     (case innerLoop a rest s of
        (Some e, s') \<Rightarrow> (Some e, s')
      | (None, s') \<Rightarrow> outerLoop rest s')"

text \<open>
  The exit pass for one collider: the scan of its active set gives the ids to delete and
  the exit calls, in the order of the set.
\<close>

fun exitScan :: "World \<Rightarrow> string set \<Rightarrow> ref \<Rightarrow> string list \<Rightarrow> string list \<times> event list" where
  "exitScan w cur r [] = ([], [])"
| "exitScan w cur r (otherId # rest) =
     (let (toRemove, evs) = exitScan w cur r rest
      in case map_of (colliders w) otherId of
           None \<Rightarrow> (otherId # toRemove, evs)
         | Some other \<Rightarrow>
             if pairKey (idC (heap w r)) otherId \<notin> cur
             then (otherId # toRemove,
                   (if onCollisionExit (heap w r) then [CollisionExit r other] else []) @ evs)
             else (toRemove, evs))"

definition exitStep :: "string set \<Rightarrow> World \<Rightarrow> ref \<Rightarrow> World" where
  "exitStep cur w r =
     (let (toRemove, evs) = exitScan w cur r (activeCollisions (heap w r))
      in w\<lparr>heap := (heap w)(r := (heap w r)\<lparr>activeCollisions :=
                filter (\<lambda>k. k \<notin> set toRemove) (activeCollisions (heap w r))\<rparr>),
           events := events w @ evs\<rparr>)"

definition update :: "World \<Rightarrow> error option \<times> World" where
  "update w =
     (let collidersArray = map snd (colliders w);
          w0 = foldl refreshPosition w collidersArray
      in case outerLoop collidersArray (w0, {}) of
           (Some e, w1, cur) \<Rightarrow> (Some e, w1)
         | (None, w1, cur) \<Rightarrow> (None, foldl (exitStep cur) w1 collidersArray))"

section \<open>The spec's notions and the inputs of the examples\<close>

text \<open>The Euclidean distance of two points, as the spec words it.\<close>

definition euclideanDistance :: "Vector3 \<Rightarrow> Vector3 \<Rightarrow> real" where
  "euclideanDistance p q = sqrt ((vx p - vx q)\<^sup>2 + (vy p - vy q)\<^sup>2 + (vz p - vz q)\<^sup>2)"

text \<open>
  A collider as the \<open>Collider\<close> constructor leaves it when the options give an id, a
  parent and the three callbacks: layer \<open>ENVIRONMENT\<close>, mask \<open>ALL\<close>, neither trigger
  nor static, enabled, no offset, world position at the origin, no active collision.
\<close>

definition newCollider :: "string \<Rightarrow> Shape \<Rightarrow> ref option \<Rightarrow> Collider" where
  "newCollider ident shp par =
     \<lparr>idC = ident, shape = shp, layer = 8, collidesWithMask = 0xffffffff,
      isTrigger = False, isStatic = False, enabled = True, parent = par,
      offset = Vector3 0 0 0, worldPosition = Vector3 0 0 0, positionIsNaN = False,
      onCollisionEnter = True, onCollisionStay = True, onCollisionExit = True,
      activeCollisions = []\<rparr>"

definition placedAt :: "Collider \<Rightarrow> Vector3 \<Rightarrow> Collider" where
  \<comment> \<open>the collider with its world position at \<open>p\<close>\<close>
  "placedAt c p = c\<lparr>worldPosition := p\<rparr>"

text \<open>Two boxes of edge 1 whose bounds share the face \<open>x = 1/2\<close>.\<close>

definition boxLeft :: Collider where
  "boxLeft = placedAt (newCollider ''left'' (BoxShape (Vector3 1 1 1)) None) (Vector3 0 0 0)"

definition boxRight :: Collider where
  "boxRight = placedAt (newCollider ''right'' (BoxShape (Vector3 1 1 1)) None) (Vector3 1 0 0)"

text \<open>Two spheres of radius 1 whose centres are 2 apart, and two that overlap.\<close>

definition sphereA :: Collider where
  "sphereA = placedAt (newCollider ''a'' (SphereShape 1) None) (Vector3 0 0 0)"

definition sphereB :: Collider where
  "sphereB = placedAt (newCollider ''b'' (SphereShape 1) None) (Vector3 2 0 0)"

definition sphereC :: Collider where
  "sphereC = placedAt (newCollider ''c'' (SphereShape 1) None) (Vector3 1 0 0)"

text \<open>
  A box with half-extents 1 at the origin; a sphere of radius 3/2 above its top face at
  \<open>(0, 0, 2)\<close>; a sphere of radius 1/2 whose centre is the centre of the box.
\<close>

definition cube2 :: Collider where
  "cube2 = placedAt (newCollider ''box'' (BoxShape (Vector3 2 2 2)) None) (Vector3 0 0 0)"

definition sphereAbove :: Collider where
  "sphereAbove = placedAt (newCollider ''ball'' (SphereShape (3 / 2)) None) (Vector3 0 0 2)"

definition sphereInside :: Collider where
  "sphereInside = placedAt (newCollider ''inner'' (SphereShape (1 / 2)) None) (Vector3 0 0 0)"

text \<open>
  Two upright capsules of radius 1/2 and height 2 whose axes are 1 apart, and the centre
  of a sphere of radius 1/2 at distance 1 from the first axis.
\<close>

definition capsuleC :: Collider where
  "capsuleC = placedAt (newCollider ''c'' (CapsuleShape (1 / 2) 2) None) (Vector3 0 0 0)"

definition capsuleD :: Collider where
  "capsuleD = placedAt (newCollider ''d'' (CapsuleShape (1 / 2) 2) None) (Vector3 1 0 0)"

text \<open>
  A cylinder of radius 1 and height 2 at the origin, without parent, its bounds as
  \<open>updateWorldPosition\<close> leaves them; a box of edge 1 centred at \<open>(3/2, 0, 0)\<close>, whose
  face \<open>x = 1\<close> touches the flank of the cylinder; and a box of edge 1 centred at
  \<open>(0, 3/2, 0)\<close>, whose bottom face \<open>y = 1\<close> lies on the top face of the cylinder.
\<close>

definition cylinderE :: Collider where
  "cylinderE =
     placedAt (newCollider ''cyl'' (CylinderShape 1 2 (Vector3 (- 1) (- 1) (- 1)) (Vector3 1 1 1)) None)
       (Vector3 0 0 0)"

definition boxBeside :: Collider where
  "boxBeside = placedAt (newCollider ''beside'' (BoxShape (Vector3 1 1 1)) None) (Vector3 (3 / 2) 0 0)"

definition boxOnTop :: Collider where
  "boxOnTop = placedAt (newCollider ''top'' (BoxShape (Vector3 1 1 1)) None) (Vector3 0 (3 / 2) 0)"

text \<open>
  A world with a cylinder of radius 1 and height 10 standing at the origin and a box of
  edge 1 centred at \<open>(0, 4, 0)\<close>, inside the cylinder's flank; both as their constructors
  leave them, each on a parent of its own.
\<close>

definition cylWorld :: World where
  "cylWorld =
     \<lparr>heap = (\<lambda>r. if r = 0
                   then newCollider ''cyl'' (CylinderShape 1 10 (Vector3 0 0 0) (Vector3 0 0 0)) (Some 0)
                   else newCollider ''crate'' (BoxShape (Vector3 1 1 1)) (Some 1)),
      transforms = (\<lambda>t. if t = 0 then Vector3 0 0 0 else Vector3 0 4 0),
      nanPositions = {},
      colliders = [(''cyl'', 0), (''crate'', 1)],
      warnings = [],
      events = []\<rparr>"

text \<open>
  A world with two overlapping spheres of radius 1, neither static nor trigger, on the
  parents 0 and 1, registered in this order.
\<close>

definition twoSpheres :: World where
  "twoSpheres =
     \<lparr>heap = (\<lambda>r. if r = 0 then newCollider ''a'' (SphereShape 1) (Some 0)
                   else newCollider ''b'' (SphereShape 1) (Some 1)),
      transforms = (\<lambda>t. if t = 0 then Vector3 0 0 0 else Vector3 1 0 0),
      nanPositions = {},
      colliders = [(''a'', 0), (''b'', 1)],
      warnings = [],
      events = []\<rparr>"

section \<open>Runs of the system and what a tick may touch\<close>

text \<open>
  What the owners do between two ticks: put a parent transform at a position, switch a
  collider on or off, register a collider, remove one. A run executes a list of such
  actions and ticks; a tick that raises leaves the state the exception left.
\<close>

datatype action =
    Tick
  | MoveTo ref Vector3
  | SetEnabled ref bool
  | AddCollider ref
  | RemoveCollider string

fun exec :: "World \<Rightarrow> action \<Rightarrow> World" where
  "exec w Tick = snd (update w)"
| "exec w (MoveTo t p) =
     w\<lparr>transforms := (transforms w)(t := p), nanPositions := nanPositions w - {t}\<rparr>"
| "exec w (SetEnabled r v) = w\<lparr>heap := (heap w)(r := (heap w r)\<lparr>enabled := v\<rparr>)\<rparr>"
| "exec w (AddCollider r) = fst (addCollider w r)"
| "exec w (RemoveCollider k) = removeCollider w k"

definition run :: "World \<Rightarrow> action list \<Rightarrow> World" where
  "run w acts = foldl exec w acts"

text \<open>
  The registry as \<open>addCollider\<close> builds it: no key twice, and every collider stored
  under its own id (no code assigns \<open>id\<close> after construction).
\<close>

definition registryOk :: "World \<Rightarrow> bool" where
  "registryOk w \<longleftrightarrow>
     distinct (map fst (colliders w)) \<and>
     list_all (\<lambda>e. idC (heap w (snd e)) = fst e) (colliders w)"

definition noSelf :: "World \<Rightarrow> bool" where
  "noSelf w \<longleftrightarrow> (\<forall>r. idC (heap w r) \<notin> set (activeCollisions (heap w r)))"

fun eventRefs :: "event \<Rightarrow> ref set" where
  "eventRefs (CollisionEnter r other response) = {r, other}"
| "eventRefs (CollisionStay r other response) = {r, other}"
| "eventRefs (CollisionExit r other) = {r, other}"

text \<open>
  \<open>confined S w w'\<close>: from \<open>w\<close> to \<open>w'\<close> the registry and all ids are kept, colliders
  outside \<open>S\<close> are untouched, an active set has gained at most ids of other colliders of
  \<open>S\<close>, and the callbacks called involve colliders of \<open>S\<close> only.
\<close>

definition confined :: "ref set \<Rightarrow> World \<Rightarrow> World \<Rightarrow> bool" where
  "confined S w w' \<longleftrightarrow>
     colliders w' = colliders w \<and>
     (\<forall>r. idC (heap w' r) = idC (heap w r)) \<and>
     (\<forall>r. r \<notin> S \<longrightarrow> heap w' r = heap w r) \<and>
     (\<forall>r. set (activeCollisions (heap w' r))
            \<subseteq> set (activeCollisions (heap w r)) \<union> {idC (heap w x) |x. x \<in> S \<and> x \<noteq> r}) \<and>
     (\<exists>new. events w' = events w @ new \<and> (\<forall>e \<in> set new. eventRefs e \<subseteq> S))"

section \<open>The inputs of the system examples\<close>

text \<open>The world \<open>twoSpheres\<close> after one tick: both spheres have entered, each was pushed by 1/2.\<close>

definition twoSpheresTicked :: World where
  "twoSpheresTicked =
     \<lparr>heap = (\<lambda>r. if r = 0
                   then (newCollider ''a'' (SphereShape 1) (Some 0))\<lparr>activeCollisions := [''b'']\<rparr>
                   else if r = 1
                   then (newCollider ''b'' (SphereShape 1) (Some 1))
                          \<lparr>worldPosition := Vector3 1 0 0, activeCollisions := [''a'']\<rparr>
                   else newCollider ''b'' (SphereShape 1) (Some 1)),
      transforms = (\<lambda>t. if t = 0 then Vector3 (- 1 / 2) 0 0
                         else if t = 1 then Vector3 (3 / 2) 0 0 else Vector3 1 0 0),
      nanPositions = {},
      colliders = [(''a'', 0), (''b'', 1)],
      warnings = [],
      events =
        [CollisionEnter 0 1 (Some \<lparr>direction = Vector3 (- 1) 0 0, overlap = 1, normal = Vector3 (- 1) 0 0\<rparr>),
         CollisionEnter 1 0 (Some \<lparr>direction = Vector3 1 0 0, overlap = 1, normal = Vector3 1 0 0\<rparr>)]\<rparr>"

text \<open>
  Four trigger spheres of radius 1 with the ids \<open>a\<close>, \<open>b:c\<close>, \<open>a:b\<close> and \<open>c\<close>,
  registered in this order, each on its own parent. The first two are on layer 1 and
  accept layer 1, the last two on layer 2 and accept layer 2. The parents stand at
  \<open>x = 0, 1, 10, 20\<close>: \<open>a\<close> overlaps \<open>b:c\<close>, and \<open>a:b\<close> and \<open>c\<close> are apart.
\<close>

definition zone :: "string \<Rightarrow> 32 word \<Rightarrow> ref \<Rightarrow> Collider" where
  "zone ident lay par =
     (newCollider ident (SphereShape 1) (Some par))
        \<lparr>isTrigger := True, layer := lay, collidesWithMask := lay\<rparr>"

definition fourZones :: World where
  "fourZones =
     \<lparr>heap = (\<lambda>r. if r = 0 then zone ''a'' 1 0
                   else if r = 1 then zone ''b:c'' 1 1
                   else if r = 2 then zone ''a:b'' 2 2
                   else zone ''c'' 2 3),
      transforms = (\<lambda>t. if t = 0 then Vector3 0 0 0
                         else if t = 1 then Vector3 1 0 0
                         else if t = 2 then Vector3 10 0 0
                         else Vector3 20 0 0),
      nanPositions = {},
      colliders = [(''a'', 0), (''b:c'', 1), (''a:b'', 2), (''c'', 3)],
      warnings = [],
      events = []\<rparr>"

definition pushLeft :: "Response option" where
  "pushLeft = Some \<lparr>direction = Vector3 (- 1) 0 0, overlap = 1, normal = Vector3 (- 1) 0 0\<rparr>"

definition pushRight :: "Response option" where
  "pushRight = Some \<lparr>direction = Vector3 1 0 0, overlap = 1, normal = Vector3 1 0 0\<rparr>"

text \<open>
  The states the four zones go through: world positions refreshed, the parent of
  \<open>c\<close> at \<open>p3\<close>, the four active sets and the callback log as given.
\<close>

definition zoneWorld ::
  "Vector3 \<Rightarrow> string list \<Rightarrow> string list \<Rightarrow> string list \<Rightarrow> string list \<Rightarrow> event list \<Rightarrow> World" where
  "zoneWorld p3 act0 act1 act2 act3 evs =
     \<lparr>heap = (\<lambda>r. if r = 0 then (zone ''a'' 1 0)\<lparr>activeCollisions := act0\<rparr>
                   else if r = 1 then (zone ''b:c'' 1 1)
                          \<lparr>worldPosition := Vector3 1 0 0, activeCollisions := act1\<rparr>
                   else if r = 2 then (zone ''a:b'' 2 2)
                          \<lparr>worldPosition := Vector3 10 0 0, activeCollisions := act2\<rparr>
                   else if r = 3 then (zone ''c'' 2 3)
                          \<lparr>worldPosition := p3, activeCollisions := act3\<rparr>
                   else zone ''c'' 2 3),
      transforms = (\<lambda>t. if t = 0 then Vector3 0 0 0
                         else if t = 1 then Vector3 1 0 0
                         else if t = 2 then Vector3 10 0 0
                         else if t = 3 then p3
                         else Vector3 20 0 0),
      nanPositions = {},
      colliders = [(''a'', 0), (''b:c'', 1), (''a:b'', 2), (''c'', 3)],
      warnings = [],
      events = evs\<rparr>"


text \<open>
  A world with two overlapping trigger spheres of radius 1 with the ids \<open>a\<close> and \<open>b\<close>,
  registered in this order, on the parents 0 and 1 at \<open>x = 0\<close> and \<open>x = 1\<close>; a third
  trigger sphere, not registered, has the id \<open>b\<close> too and stands on the parent 2, also at
  \<open>x = 1\<close>. Triggers are not pushed apart, so the two overlap as long as nobody moves
  them. \<open>twoTriggersTicked\<close> is this world after one tick: both have entered.
\<close>

definition triggerSphere :: "string \<Rightarrow> ref \<Rightarrow> Collider" where
  "triggerSphere ident par = (newCollider ident (SphereShape 1) (Some par))\<lparr>isTrigger := True\<rparr>"

definition twoTriggers :: World where
  "twoTriggers =
     \<lparr>heap = (\<lambda>r. if r = 0 then triggerSphere ''a'' 0
                   else if r = 1 then triggerSphere ''b'' 1
                   else triggerSphere ''b'' 2),
      transforms = (\<lambda>t. if t = 0 then Vector3 0 0 0 else Vector3 1 0 0),
      nanPositions = {},
      colliders = [(''a'', 0), (''b'', 1)],
      warnings = [],
      events = []\<rparr>"

definition twoTriggersTicked :: World where
  "twoTriggersTicked =
     twoTriggers
       \<lparr>heap := (\<lambda>r. if r = 0 then (triggerSphere ''a'' 0)\<lparr>activeCollisions := [''b'']\<rparr>
                     else if r = 1
                     then (triggerSphere ''b'' 1)
                            \<lparr>worldPosition := Vector3 1 0 0, activeCollisions := [''a'']\<rparr>
                     else triggerSphere ''b'' 2),
        events := [CollisionEnter 0 1 pushLeft, CollisionEnter 1 0 pushRight]\<rparr>"
section \<open>The pair loop as one sweep, and what a pair sees of a tick\<close>

text \<open>
  The pairs the two nested loops of \<open>update\<close> visit, in their order, and the loop body
  run over a list of pairs.
\<close>

fun pairsOf :: "ref list \<Rightarrow> (ref \<times> ref) list" where
  "pairsOf [] = []"
| "pairsOf (a # rest) = map (Pair a) rest @ pairsOf rest"

fun sweep :: "(ref \<times> ref) list \<Rightarrow> World \<times> string set \<Rightarrow> error option \<times> World \<times> string set" where
  "sweep [] s = (None, s)"
| "sweep (p # ps) s =
     (case pairStep (fst p) (snd p) s of
        (Some e, s') \<Rightarrow> (Some e, s')
      | (None, s') \<Rightarrow> sweep ps s')"

text \<open>
  The answer of \<open>checkCollision(a, b)\<close> in the tick that starts in \<open>w\<close>: the test is
  made when the pair loop reaches the pair, after the pairs before it were resolved.
\<close>

definition verdict :: "World \<Rightarrow> ref \<Rightarrow> ref \<Rightarrow> bool" where
  "verdict w a b =
     (let collidersArray = map snd (colliders w);
          w0 = foldl refreshPosition w collidersArray;
          before = takeWhile (\<lambda>p. p \<noteq> (a, b)) (pairsOf collidersArray)
      in fst (checkCollision (fst (snd (sweep before (w0, {})))) a b))"

text \<open>
  The callbacks of a log that are about the pair \<open>a\<close>, \<open>b\<close>: which callback, on whom,
  with whom.
\<close>

datatype callback = OnEnter | OnStay | OnExit

fun callbackOf :: "event \<Rightarrow> callback \<times> ref \<times> ref" where
  "callbackOf (CollisionEnter r other response) = (OnEnter, r, other)"
| "callbackOf (CollisionStay r other response) = (OnStay, r, other)"
| "callbackOf (CollisionExit r other) = (OnExit, r, other)"

definition pairEvents :: "ref \<Rightarrow> ref \<Rightarrow> event list \<Rightarrow> (callback \<times> ref \<times> ref) list" where
  "pairEvents a b evs = map callbackOf (filter (\<lambda>e. eventRefs e = {a, b}) evs)"

definition holds :: "World \<Rightarrow> ref \<Rightarrow> ref \<Rightarrow> bool" where
  \<comment> \<open>the active set of \<open>a\<close> holds the id of \<open>b\<close>\<close>
  "holds w a b \<longleftrightarrow> idC (heap w b) \<in> set (activeCollisions (heap w a))"

definition handlersInstalled :: "World \<Rightarrow> ref \<Rightarrow> bool" where
  "handlersInstalled w r \<longleftrightarrow>
     onCollisionEnter (heap w r) \<and> onCollisionStay (heap w r) \<and> onCollisionExit (heap w r)"

text \<open>No other pair of the registry has the key of the pair \<open>a\<close>, \<open>b\<close>.\<close>

definition keyUnshared :: "World \<Rightarrow> ref \<Rightarrow> ref \<Rightarrow> bool" where
  "keyUnshared w a b \<longleftrightarrow>
     list_all (\<lambda>p. p = (a, b) \<or>
                  pairKey (idC (heap w (fst p))) (idC (heap w (snd p)))
                    \<noteq> pairKey (idC (heap w a)) (idC (heap w b)))
       (pairsOf (map snd (colliders w)))"

text \<open>The active sets are sets: no id twice.\<close>

definition setsOk :: "World \<Rightarrow> bool" where
  "setsOk w \<longleftrightarrow> (\<forall>r. distinct (activeCollisions (heap w r)))"

text \<open>
  What the pair \<open>a\<close>, \<open>b\<close> sees of a state of the pair loop: the two active-set
  entries, its callbacks so far, and whether its key is in \<open>currentCollisions\<close>.
\<close>

definition pairView ::
  "ref \<Rightarrow> ref \<Rightarrow> World \<times> string set \<Rightarrow> bool \<times> bool \<times> (callback \<times> ref \<times> ref) list \<times> bool" where
  "pairView a b s =
     (holds (fst s) a b, holds (fst s) b a, pairEvents a b (events (fst s)),
      pairKey (idC (heap (fst s) a)) (idC (heap (fst s) b)) \<in> snd s)"

text \<open>What no step of a tick changes: the registry, the ids and the installed handlers.\<close>

definition sameStatic :: "World \<Rightarrow> World \<Rightarrow> bool" where
  "sameStatic w w' \<longleftrightarrow>
     colliders w' = colliders w \<and>
     (\<forall>p. idC (heap w' p) = idC (heap w p) \<and>
          onCollisionEnter (heap w' p) = onCollisionEnter (heap w p) \<and>
          onCollisionStay (heap w' p) = onCollisionStay (heap w p) \<and>
          onCollisionExit (heap w' p) = onCollisionExit (heap w p))"

text \<open>
  A run of ticks in which the game only moves parents and enables or disables colliders
  between the ticks, and every tick returns; and the answers of \<open>checkCollision(a, b)\<close>
  in the ticks of such a run, in order.
\<close>

fun quietRun :: "World \<Rightarrow> action list \<Rightarrow> bool" where
  "quietRun w [] = True"
| "quietRun w (Tick # acts) = (fst (update w) = None \<and> quietRun (exec w Tick) acts)"
| "quietRun w (MoveTo t p # acts) = quietRun (exec w (MoveTo t p)) acts"
| "quietRun w (SetEnabled r v # acts) = quietRun (exec w (SetEnabled r v)) acts"
| "quietRun w (AddCollider r # acts) = False"
| "quietRun w (RemoveCollider k # acts) = False"

fun verdicts :: "World \<Rightarrow> action list \<Rightarrow> ref \<Rightarrow> ref \<Rightarrow> bool list" where
  "verdicts w [] a b = []"
| "verdicts w (Tick # acts) a b = verdict w a b # verdicts (exec w Tick) acts a b"
| "verdicts w (MoveTo t p # acts) a b = verdicts (exec w (MoveTo t p)) acts a b"
| "verdicts w (SetEnabled r v # acts) a b = verdicts (exec w (SetEnabled r v)) acts a b"
| "verdicts w (AddCollider r # acts) a b = verdicts (exec w (AddCollider r)) acts a b"
| "verdicts w (RemoveCollider k # acts) a b = verdicts (exec w (RemoveCollider k)) acts a b"

text \<open>
  The lifecycle as the specification words it, for a pair and the overlap answers of the
  ticks that follow; \<open>was\<close> says whether the pair is in contact, \<open>now\<close> is the
  answer of the first tick. A tick that overlaps is an enter after no contact and a stay
  after contact, a tick that does not overlap is an exit after contact and nothing after
  no contact; each on both sides, \<open>a\<close> first.
\<close>

fun specLifecycle :: "ref \<Rightarrow> ref \<Rightarrow> bool \<Rightarrow> bool list \<Rightarrow> (callback \<times> ref \<times> ref) list" where
  "specLifecycle a b was [] = []"
| "specLifecycle a b was (now # rest) =
     (if now
      then (if was then [(OnStay, a, b), (OnStay, b, a)] else [(OnEnter, a, b), (OnEnter, b, a)])
      else (if was then [(OnExit, a, b), (OnExit, b, a)] else []))
     @ specLifecycle a b now rest"

text \<open>No registered id contains the separator of the pair key.\<close>

definition plainIds :: "World \<Rightarrow> bool" where
  "plainIds w \<longleftrightarrow> list_all (\<lambda>e. CHR '':'' \<notin> set (fst e)) (colliders w)"

text \<open>
  The callbacks one collider gets about one partner, as the specification orders them:
  an enter only out of contact, a stay or an exit only in contact.
\<close>

fun enterExitAlternate :: "bool \<Rightarrow> callback list \<Rightarrow> bool" where
  "enterExitAlternate contact [] = True"
| "enterExitAlternate contact (OnEnter # rest) = (\<not> contact \<and> enterExitAlternate True rest)"
| "enterExitAlternate contact (OnStay # rest) = (contact \<and> enterExitAlternate True rest)"
| "enterExitAlternate contact (OnExit # rest) = (contact \<and> enterExitAlternate False rest)"

definition callbacksOn :: "ref \<Rightarrow> (callback \<times> ref \<times> ref) list \<Rightarrow> callback list" where
  "callbacksOn r cs = map fst (filter (\<lambda>c. fst (snd c) = r) cs)"

section \<open>Unfolding rules\<close>

lemmas vec_defs = addV_def subV_def subVectors_def multiplyScalar_def addScaledVector_def
  negate_def dot_def lengthSq_def lengthV_def distanceToSquared_def distanceTo_def
  divideScalar_def normalize_def zeroV_def closestInBounds_def Let_def

lemmas shape_defs = ctype_def radius_def height_def sizeB_def cylMin_def cylMax_def

lemmas example_defs = newCollider_def placedAt_def boxLeft_def boxRight_def sphereA_def
  sphereB_def sphereC_def cube2_def sphereAbove_def sphereInside_def capsuleC_def capsuleD_def
  cylinderE_def boxBeside_def boxOnTop_def

lemmas system_defs = update_def pairStep_def checkCollision_def getCollisionResponse_def
  refreshPosition_def canCollideWith_def updateWorldPosition_def Collider_updateWorldPosition_def
  checkCollision_types_def getCollisionResponse_types_def getCollisionResponse_method_def
  intersectsSphere_def SphereCollider_intersectsSphere_def SphereCollider_getCollisionResponse_def
  activeAdd_def setAdd_def emit_def responseForB_def resolveCollision_def positionAdd_def
  positionSub_def pairKey_def exitStep_def

lemmas pair_defs = pairStep_def checkCollision_def getCollisionResponse_def
  refreshPosition_def canCollideWith_def updateWorldPosition_def Collider_updateWorldPosition_def
  checkCollision_types_def getCollisionResponse_types_def getCollisionResponse_method_def
  intersectsSphere_def SphereCollider_intersectsSphere_def SphereCollider_getCollisionResponse_def
  activeAdd_def setAdd_def emit_def responseForB_def resolveCollision_def pairKey_def

lemmas zone_defs = zoneWorld_def zone_def newCollider_def pushLeft_def pushRight_def

section \<open>The shape tests\<close>

text \<open>
  Claim C1. For two sphere colliders, \<open>intersectsSphere\<close> answers true exactly when the
  Euclidean distance of the two centres (the world positions) is strictly less than the
  sum of the two radii.
\<close>

theorem C1_sphere_sphere_overlap:
  "shape a = SphereShape ra \<Longrightarrow> shape b = SphereShape rb \<Longrightarrow>
   intersectsSphere a b
     = (euclideanDistance (worldPosition a) (worldPosition b) < ra + rb)"
  by (simp add: intersectsSphere_def SphereCollider_intersectsSphere_def radius_def
      euclideanDistance_def distanceTo_def distanceToSquared_def power2_eq_square Let_def)

theorem C1_sphere_sphere_overlap_witness:
  "shape sphereA = SphereShape 1 \<and> shape sphereC = SphereShape 1 \<and>
   intersectsSphere sphereA sphereC \<and>
   euclideanDistance (worldPosition sphereA) (worldPosition sphereC) < 1 + 1"
  using C1_sphere_sphere_overlap [of sphereA 1 sphereC 1]
  by (simp add: example_defs euclideanDistance_def)

text \<open>
  Claim C6, as stated, says that every pair test is strict, so that shapes that exactly
  touch do not collide. \<open>BoxCollider.intersectsBox\<close> compares with \<open>\<le>\<close> and
  \<open>\<ge>\<close>: two boxes of edge 1 centred at \<open>(0,0,0)\<close> and \<open>(1,0,0)\<close> share exactly
  the face \<open>x = 1/2\<close> and are reported as colliding.
\<close>

theorem C6_box_face_counterexample:
  "vx (snd (updateBounds boxLeft)) = vx (fst (updateBounds boxRight)) \<and>
   BoxCollider_intersectsBox boxLeft boxRight"
  by (simp add: BoxCollider_intersectsBox_def updateBounds_def example_defs vec_defs shape_defs)

text \<open>
  Claim C6, amended. The tests that compare a distance with a radius are strict: two
  spheres whose centres are exactly the sum of the radii apart, a sphere whose centre is
  exactly its radius away from the closest point of a box, two capsules whose closest
  axis points are exactly the sum of the radii apart, a sphere at exactly the combined
  radius from a capsule's axis, and a sphere whose centre is exactly its radius away from
  the point \<open>closestOnSurface\<close> of a cylinder do not collide. The box-box test is not
  strict: two boxes collide exactly when their bounds overlap or touch on each of the
  three axes, so boxes that share a face collide. The cylinder-box test is mixed: it
  compares the bounds of the cylinder with the bounds of the box in the same non-strict
  way, and then the squared horizontal distance of the axis to the box strictly with the
  squared radius. So a box at exactly the radius from the axis, touching the flank, does
  not collide, and a box that lies on the top or under the bottom face of the cylinder,
  within the radius of the axis, does.
\<close>

theorem C6_touching:
  "(distanceTo (worldPosition a) (worldPosition b) = radius a + radius b
      \<longrightarrow> \<not> SphereCollider_intersectsSphere a b) \<and>
   (distanceTo (closestInBounds (fst (updateBounds box)) (snd (updateBounds box)) p) p = r
      \<longrightarrow> \<not> BoxCollider_intersectsSphere box p r) \<and>
   (distanceTo (fst (closestPointsOnSegments (fst (updateCapsulePoints c)) (snd (updateCapsulePoints c))
                     (fst (updateCapsulePoints d)) (snd (updateCapsulePoints d))))
               (snd (closestPointsOnSegments (fst (updateCapsulePoints c)) (snd (updateCapsulePoints c))
                     (fst (updateCapsulePoints d)) (snd (updateCapsulePoints d))))
      = radius c + radius d
      \<longrightarrow> \<not> CapsuleCollider_intersectsCapsule c d) \<and>
   (closestPointOnSegment p' (fst (updateCapsulePoints c')) (snd (updateCapsulePoints c')) = Some q
      \<and> distanceTo q p' = radius c' + r'
      \<longrightarrow> \<not> CapsuleCollider_intersectsSphere c' p' r') \<and>
   BoxCollider_intersectsBox box1 box2 =
     (vx (fst (updateBounds box1)) \<le> vx (snd (updateBounds box2)) \<and>
      vx (fst (updateBounds box2)) \<le> vx (snd (updateBounds box1)) \<and>
      vy (fst (updateBounds box1)) \<le> vy (snd (updateBounds box2)) \<and>
      vy (fst (updateBounds box2)) \<le> vy (snd (updateBounds box1)) \<and>
      vz (fst (updateBounds box1)) \<le> vz (snd (updateBounds box2)) \<and>
      vz (fst (updateBounds box2)) \<le> vz (snd (updateBounds box1))) \<and>
   (distanceTo (closestOnSurface cyl ps) ps = rs
      \<longrightarrow> \<not> CylinderCollider_intersectsSphere cyl ps rs) \<and>
   (horizontalDistSq (CylinderCollider_updateWorldPosition T N cyl1)
        (fst (updateBounds box3)) (snd (updateBounds box3))
      = radius (CylinderCollider_updateWorldPosition T N cyl1)
        * radius (CylinderCollider_updateWorldPosition T N cyl1)
      \<longrightarrow> \<not> CylinderCollider_intersectsBox T N cyl1 box3) \<and>
   CylinderCollider_intersectsBox T' N' cyl2 box4 =
     (\<not> positionIsNaN (CylinderCollider_updateWorldPosition T' N' cyl2) \<and>
      \<not> positionIsNaN box4 \<and>
      vx (cylMin (CylinderCollider_updateWorldPosition T' N' cyl2)) \<le> vx (snd (updateBounds box4)) \<and>
      vx (fst (updateBounds box4)) \<le> vx (cylMax (CylinderCollider_updateWorldPosition T' N' cyl2)) \<and>
      vy (cylMin (CylinderCollider_updateWorldPosition T' N' cyl2)) \<le> vy (snd (updateBounds box4)) \<and>
      vy (fst (updateBounds box4)) \<le> vy (cylMax (CylinderCollider_updateWorldPosition T' N' cyl2)) \<and>
      vz (cylMin (CylinderCollider_updateWorldPosition T' N' cyl2)) \<le> vz (snd (updateBounds box4)) \<and>
      vz (fst (updateBounds box4)) \<le> vz (cylMax (CylinderCollider_updateWorldPosition T' N' cyl2)) \<and>
      horizontalDistSq (CylinderCollider_updateWorldPosition T' N' cyl2)
          (fst (updateBounds box4)) (snd (updateBounds box4))
        < radius (CylinderCollider_updateWorldPosition T' N' cyl2)
          * radius (CylinderCollider_updateWorldPosition T' N' cyl2))"
proof -
  have spheres: "distanceTo (worldPosition a) (worldPosition b) = radius a + radius b
      \<longrightarrow> \<not> SphereCollider_intersectsSphere a b"
    by (simp add: SphereCollider_intersectsSphere_def Let_def)
  have boxSphere: "distanceTo (closestInBounds (fst (updateBounds box)) (snd (updateBounds box)) p) p = r
      \<longrightarrow> \<not> BoxCollider_intersectsSphere box p r"
    by (simp add: BoxCollider_intersectsSphere_def Let_def split_beta)
  have capsules: "distanceTo (fst (closestPointsOnSegments (fst (updateCapsulePoints c)) (snd (updateCapsulePoints c))
                     (fst (updateCapsulePoints d)) (snd (updateCapsulePoints d))))
               (snd (closestPointsOnSegments (fst (updateCapsulePoints c)) (snd (updateCapsulePoints c))
                     (fst (updateCapsulePoints d)) (snd (updateCapsulePoints d))))
      = radius c + radius d
      \<longrightarrow> \<not> CapsuleCollider_intersectsCapsule c d"
    by (simp add: CapsuleCollider_intersectsCapsule_def Let_def split_beta)
  have capsuleSphere: "closestPointOnSegment p' (fst (updateCapsulePoints c')) (snd (updateCapsulePoints c')) = Some q
      \<and> distanceTo q p' = radius c' + r'
      \<longrightarrow> \<not> CapsuleCollider_intersectsSphere c' p' r'"
    by (simp add: CapsuleCollider_intersectsSphere_def Let_def split_beta)
  have boxes: "BoxCollider_intersectsBox box1 box2 =
     (vx (fst (updateBounds box1)) \<le> vx (snd (updateBounds box2)) \<and>
      vx (fst (updateBounds box2)) \<le> vx (snd (updateBounds box1)) \<and>
      vy (fst (updateBounds box1)) \<le> vy (snd (updateBounds box2)) \<and>
      vy (fst (updateBounds box2)) \<le> vy (snd (updateBounds box1)) \<and>
      vz (fst (updateBounds box1)) \<le> vz (snd (updateBounds box2)) \<and>
      vz (fst (updateBounds box2)) \<le> vz (snd (updateBounds box1)))"
    by (simp add: BoxCollider_intersectsBox_def Let_def split_beta)
  have cylinderSphere: "distanceTo (closestOnSurface cyl ps) ps = rs
      \<longrightarrow> \<not> CylinderCollider_intersectsSphere cyl ps rs"
    by (simp add: CylinderCollider_intersectsSphere_def closestOnSurface_def Let_def)
  have cylinderBox: "CylinderCollider_intersectsBox T' N' cyl2 box4 =
     (\<not> positionIsNaN (CylinderCollider_updateWorldPosition T' N' cyl2) \<and>
      \<not> positionIsNaN box4 \<and>
      vx (cylMin (CylinderCollider_updateWorldPosition T' N' cyl2)) \<le> vx (snd (updateBounds box4)) \<and>
      vx (fst (updateBounds box4)) \<le> vx (cylMax (CylinderCollider_updateWorldPosition T' N' cyl2)) \<and>
      vy (cylMin (CylinderCollider_updateWorldPosition T' N' cyl2)) \<le> vy (snd (updateBounds box4)) \<and>
      vy (fst (updateBounds box4)) \<le> vy (cylMax (CylinderCollider_updateWorldPosition T' N' cyl2)) \<and>
      vz (cylMin (CylinderCollider_updateWorldPosition T' N' cyl2)) \<le> vz (snd (updateBounds box4)) \<and>
      vz (fst (updateBounds box4)) \<le> vz (cylMax (CylinderCollider_updateWorldPosition T' N' cyl2)) \<and>
      horizontalDistSq (CylinderCollider_updateWorldPosition T' N' cyl2)
          (fst (updateBounds box4)) (snd (updateBounds box4))
        < radius (CylinderCollider_updateWorldPosition T' N' cyl2)
          * radius (CylinderCollider_updateWorldPosition T' N' cyl2))"
    for T' N' cyl2 box4
    unfolding CylinderCollider_intersectsBox_def horizontalDistSq_def Let_def split_beta
    by (auto simp add: not_less)
  have cylinderBoxTouch: "horizontalDistSq (CylinderCollider_updateWorldPosition T N cyl1)
        (fst (updateBounds box3)) (snd (updateBounds box3))
      = radius (CylinderCollider_updateWorldPosition T N cyl1)
        * radius (CylinderCollider_updateWorldPosition T N cyl1)
      \<longrightarrow> \<not> CylinderCollider_intersectsBox T N cyl1 box3"
    by (simp add: cylinderBox)
  show ?thesis
    using spheres boxSphere capsules capsuleSphere boxes cylinderSphere cylinderBoxTouch
      cylinderBox [of T' N' cyl2 box4]
    by blast
qed

theorem C6_touching_witness:
  "distanceTo (worldPosition sphereA) (worldPosition sphereB) = radius sphereA + radius sphereB \<and>
   \<not> SphereCollider_intersectsSphere sphereA sphereB \<and>
   distanceTo (closestInBounds (fst (updateBounds cube2)) (snd (updateBounds cube2)) (Vector3 0 0 2))
     (Vector3 0 0 2) = 1 \<and>
   \<not> BoxCollider_intersectsSphere cube2 (Vector3 0 0 2) 1 \<and>
   distanceTo (fst (closestPointsOnSegments (fst (updateCapsulePoints capsuleC)) (snd (updateCapsulePoints capsuleC))
                     (fst (updateCapsulePoints capsuleD)) (snd (updateCapsulePoints capsuleD))))
               (snd (closestPointsOnSegments (fst (updateCapsulePoints capsuleC)) (snd (updateCapsulePoints capsuleC))
                     (fst (updateCapsulePoints capsuleD)) (snd (updateCapsulePoints capsuleD))))
      = radius capsuleC + radius capsuleD \<and>
   \<not> CapsuleCollider_intersectsCapsule capsuleC capsuleD \<and>
   closestPointOnSegment (Vector3 1 0 0) (fst (updateCapsulePoints capsuleC)) (snd (updateCapsulePoints capsuleC))
      = Some (Vector3 0 0 0) \<and>
   distanceTo (Vector3 0 0 0) (Vector3 1 0 0) = radius capsuleC + 1 / 2 \<and>
   \<not> CapsuleCollider_intersectsSphere capsuleC (Vector3 1 0 0) (1 / 2) \<and>
   BoxCollider_intersectsBox boxLeft boxRight \<and>
   distanceTo (closestOnSurface cylinderE (Vector3 2 0 0)) (Vector3 2 0 0) = 1 \<and>
   \<not> CylinderCollider_intersectsSphere cylinderE (Vector3 2 0 0) 1 \<and>
   horizontalDistSq (CylinderCollider_updateWorldPosition (\<lambda>t. zeroV) {} cylinderE)
       (fst (updateBounds boxBeside)) (snd (updateBounds boxBeside))
     = radius (CylinderCollider_updateWorldPosition (\<lambda>t. zeroV) {} cylinderE)
       * radius (CylinderCollider_updateWorldPosition (\<lambda>t. zeroV) {} cylinderE) \<and>
   \<not> CylinderCollider_intersectsBox (\<lambda>t. zeroV) {} cylinderE boxBeside \<and>
   vy (cylMax (CylinderCollider_updateWorldPosition (\<lambda>t. zeroV) {} cylinderE))
     = vy (fst (updateBounds boxOnTop)) \<and>
   CylinderCollider_intersectsBox (\<lambda>t. zeroV) {} cylinderE boxOnTop"
  using C6_touching [where a = sphereA and b = sphereB and box = cube2 and p = "Vector3 0 0 2"
      and r = 1 and c = capsuleC and d = capsuleD and p' = "Vector3 1 0 0" and c' = capsuleC
      and q = "Vector3 0 0 0" and r' = "1 / 2" and ?box1.0 = boxLeft and ?box2.0 = boxRight
      and cyl = cylinderE and ps = "Vector3 2 0 0" and rs = 1
      and T = "\<lambda>t. zeroV" and N = "{}" and ?cyl1.0 = cylinderE and ?box3.0 = boxBeside
      and T' = "\<lambda>t. zeroV" and N' = "{}" and ?cyl2.0 = cylinderE and ?box4.0 = boxOnTop]
  by (simp add: example_defs vec_defs shape_defs updateBounds_def updateCapsulePoints_def
      closestPointsOnSegments_def closestPointOnSegment_def closestOnSurface_def
      horizontalDistSq_def CylinderCollider_updateWorldPosition_def
      Collider_updateWorldPosition_def)

text \<open>
  The cylinder's response for a box does treat the embedded case: when the centre lies
  inside the bounds, or closer than 0.001 to its closest point in them, the direction is
  one of the six axis directions.
\<close>

lemma axis_cases:
  "(if m = a then Vector3 1 0 0
    else if m = b then Vector3 (- 1) 0 0
    else if m = c then Vector3 0 1 0
    else if m = d then Vector3 0 (- 1) 0
    else if m = e then Vector3 0 0 1
    else Vector3 0 0 (- 1))
   \<in> {Vector3 1 0 0, Vector3 (- 1) 0 0, Vector3 0 1 0, Vector3 0 (- 1) 0,
      Vector3 0 0 1, Vector3 0 0 (- 1)}"
  by simp

lemma cylinder_embedded_direction:
  assumes "(vx (worldPosition c) > vx bmin \<and> vx (worldPosition c) < vx bmax \<and>
            vy (worldPosition c) > vy bmin \<and> vy (worldPosition c) < vy bmax \<and>
            vz (worldPosition c) > vz bmin \<and> vz (worldPosition c) < vz bmax)
           \<or> lengthV (subVectors (worldPosition c) (closestInBounds bmin bmax (worldPosition c)))
               < 1 / 1000"
  shows "direction (CylinderCollider_getCollisionResponseForBox c bmin bmax)
           \<in> {Vector3 1 0 0, Vector3 (- 1) 0 0, Vector3 0 1 0, Vector3 0 (- 1) 0,
              Vector3 0 0 1, Vector3 0 0 (- 1)}"
  unfolding CylinderCollider_getCollisionResponseForBox_def Let_def
  by (simp only: assms if_True Response.select_convs axis_cases)

text \<open>
  Claim C7 says that for an embedded or coincident pair the response direction is a unit
  vector along the axis of least face distance, never the zero vector. Only
  \<open>CylinderCollider.getCollisionResponseForBox\<close> has that case. For a sphere of radius
  1/2 whose centre is the centre of a box with half-extents 1,
  \<open>BoxCollider.getCollisionResponseForSphere\<close> finds the closest point at the centre
  itself and returns the zero vector as direction; \<open>SphereCollider.getCollisionResponse\<close>
  does the same for two spheres with one centre.
\<close>

theorem C7_embedded_direction_zero:
  "BoxCollider_intersectsSphere cube2 (worldPosition sphereInside) (radius sphereInside) \<and>
   direction (BoxCollider_getCollisionResponseForSphere cube2 (worldPosition sphereInside)
       (radius sphereInside)) = Vector3 0 0 0 \<and>
   SphereCollider_intersectsSphere sphereA sphereA \<and>
   direction (SphereCollider_getCollisionResponse sphereA sphereA) = Vector3 0 0 0"
  by (simp add: example_defs vec_defs shape_defs updateBounds_def SphereCollider_intersectsSphere_def
      BoxCollider_intersectsSphere_def BoxCollider_getCollisionResponseForSphere_def
      SphereCollider_getCollisionResponse_def)

text \<open>
  Claim C8 says that the response for side A points from B toward A in every ordering of
  the shape kinds. For a box A with half-extents 1 at the origin and a sphere B of radius
  3/2 at \<open>(0, 0, 2)\<close> the pair overlaps, and the response computed for A has direction
  \<open>(0, 0, 1)\<close>, from the box toward the sphere, while B lies at \<open>(0, 0, 2)\<close> from A
  (the vector from B to A is \<open>(0, 0, -2)\<close>). In the other ordering (sphere first) the
  direction is the same \<open>(0, 0, 1)\<close>, which there does point from B toward A.
\<close>

theorem C8_box_sphere_direction:
  "checkCollision_types cube2 sphereAbove \<and>
   getCollisionResponse_types cube2 sphereAbove
     = Inr (Some \<lparr>direction = Vector3 0 0 1, overlap = 1 / 2, normal = Vector3 0 0 1\<rparr>) \<and>
   subVectors (worldPosition cube2) (worldPosition sphereAbove) = Vector3 0 0 (- 2) \<and>
   getCollisionResponse_types sphereAbove cube2
     = Inr (Some \<lparr>direction = Vector3 0 0 1, overlap = 1 / 2, normal = Vector3 0 0 1\<rparr>)"
  by (simp add: example_defs vec_defs shape_defs updateBounds_def checkCollision_types_def
      getCollisionResponse_types_def intersectsSphere_def
      BoxCollider_intersectsSphere_def BoxCollider_getCollisionResponseForSphere_def)

section \<open>The pair test of the system\<close>

text \<open>
  Claim C2 says that \<open>checkCollision\<close> answers a cylinder-box pair with the cylinder's
  own test (bounds pre-test, then circle against rectangle in the horizontal plane).
  \<open>checkCollision\<close> has no branch for cylinders and the tag table no entry for them; a
  cylinder carries the tag \<open>SPHERE\<close>, and the pair is answered by
  \<open>BoxCollider.intersectsSphere\<close> on the cylinder's centre and radius. For a cylinder of
  radius 1 and height 10 at the origin and a box of edge 1 at \<open>(0, 4, 0)\<close>
  \<open>checkCollision\<close> answers false in both orders, and \<open>CylinderCollider.intersectsBox\<close>
  answers true.
\<close>

theorem C2_cylinder_box_dispatch:
  "fst (checkCollision cylWorld 0 1) = False \<and>
   fst (checkCollision cylWorld 1 0) = False \<and>
   fst (checkCollision cylWorld 0 1)
     = BoxCollider_intersectsSphere (updateWorldPosition (transforms cylWorld) (nanPositions cylWorld) (heap cylWorld 1))
         (worldPosition (updateWorldPosition (transforms cylWorld) (nanPositions cylWorld) (heap cylWorld 0))) 1 \<and>
   CylinderCollider_intersectsBox (transforms cylWorld) (nanPositions cylWorld) (heap cylWorld 0)
     (updateWorldPosition (transforms cylWorld) (nanPositions cylWorld) (heap cylWorld 1)) = True"
  by (simp add: cylWorld_def example_defs vec_defs shape_defs updateBounds_def checkCollision_def
      canCollideWith_def refreshPosition_def updateWorldPosition_def
      Collider_updateWorldPosition_def CylinderCollider_updateWorldPosition_def
      checkCollision_types_def intersectsSphere_def BoxCollider_intersectsSphere_def
      CylinderCollider_intersectsBox_def)

section \<open>Registration and resolution\<close>

text \<open>
  Claim C9. \<open>addCollider\<close> with a collider whose id is already a key of the registry
  returns nothing, writes one warning, and leaves the registry (so also the collider
  registered under that id), the collider objects, the transforms and the callback log as
  they were.
\<close>

theorem C9_duplicate_id_rejected:
  "map_of (colliders w) (idC (heap w r)) = Some r0 \<Longrightarrow>
   snd (addCollider w r) = None \<and>
   colliders (fst (addCollider w r)) = colliders w \<and>
   getCollider (fst (addCollider w r)) (idC (heap w r)) = Some r0 \<and>
   heap (fst (addCollider w r)) = heap w \<and>
   transforms (fst (addCollider w r)) = transforms w \<and>
   nanPositions (fst (addCollider w r)) = nanPositions w \<and>
   events (fst (addCollider w r)) = events w \<and>
   warnings (fst (addCollider w r)) =
     warnings w @ [''[CollisionSystem] Collider '' @ idC (heap w r) @ '' already exists'']"
  by (simp add: addCollider_def getCollider_def)

theorem C9_duplicate_id_rejected_witness:
  "map_of (colliders twoSpheres) (idC (heap twoSpheres 0)) = Some 0 \<and>
   snd (addCollider twoSpheres 0) = None \<and>
   colliders (fst (addCollider twoSpheres 0)) = [(''a'', 0), (''b'', 1)] \<and>
   warnings (fst (addCollider twoSpheres 0)) = [''[CollisionSystem] Collider a already exists'']"
proof -
  have h: "map_of (colliders twoSpheres) (idC (heap twoSpheres 0)) = Some 0"
    by (simp add: twoSpheres_def newCollider_def)
  show ?thesis
    using h C9_duplicate_id_rejected [OF h]
    by (simp add: twoSpheres_def newCollider_def)
qed

text \<open>
  Claim C4. \<open>resolveCollision\<close> with a response \<open>direction\<close>, \<open>overlap\<close> changes no
  collider object (so no \<open>worldPosition\<close>) and not the registry, and it makes no position
  NaN. The position of a transform \<open>t\<close> afterwards: unchanged when
  either side is a trigger or both are static; when only A is static, the push vector
  \<open>direction * overlap\<close> is subtracted if \<open>t\<close> is B's parent; when only B is static,
  it is added if \<open>t\<close> is A's parent; when neither is static, half of it is added if
  \<open>t\<close> is A's parent and half of it subtracted if \<open>t\<close> is B's parent.
\<close>

theorem C4_resolveCollision_policy:
  "heap (resolveCollision w a b (Some response)) = heap w \<and>
   colliders (resolveCollision w a b (Some response)) = colliders w \<and>
   nanPositions (resolveCollision w a b (Some response)) = nanPositions w \<and>
   transforms (resolveCollision w a b (Some response)) t =
     (let pushVector = multiplyScalar (direction response) (overlap response);
          halfPush = multiplyScalar pushVector (1 / 2);
          old = transforms w t
      in if isTrigger (heap w a) \<or> isTrigger (heap w b) then old
         else if isStatic (heap w a) \<and> isStatic (heap w b) then old
         else if isStatic (heap w a)
           then (if parent (heap w b) = Some t then subV old pushVector else old)
         else if isStatic (heap w b)
           then (if parent (heap w a) = Some t then addV old pushVector else old)
         else (let moved = (if parent (heap w a) = Some t then addV old halfPush else old)
               in if parent (heap w b) = Some t then subV moved halfPush else moved))"
  by (auto simp add: resolveCollision_def positionAdd_def positionSub_def Let_def
      split: option.splits)

theorem C4_resolveCollision_policy_witness:
  "\<not> isTrigger (heap twoSpheres 0) \<and> \<not> isStatic (heap twoSpheres 1) \<and>
   transforms (resolveCollision twoSpheres 0 1
       (Some \<lparr>direction = Vector3 (- 1) 0 0, overlap = 1, normal = Vector3 (- 1) 0 0\<rparr>)) 0
     = Vector3 (- 1 / 2) 0 0 \<and>
   transforms (resolveCollision twoSpheres 0 1
       (Some \<lparr>direction = Vector3 (- 1) 0 0, overlap = 1, normal = Vector3 (- 1) 0 0\<rparr>)) 1
     = Vector3 (3 / 2) 0 0 \<and>
   worldPosition (heap (resolveCollision twoSpheres 0 1
       (Some \<lparr>direction = Vector3 (- 1) 0 0, overlap = 1, normal = Vector3 (- 1) 0 0\<rparr>)) 0)
     = worldPosition (heap twoSpheres 0)"
  using C4_resolveCollision_policy [of twoSpheres 0 1
      "\<lparr>direction = Vector3 (- 1) 0 0, overlap = 1, normal = Vector3 (- 1) 0 0\<rparr>" 0]
    C4_resolveCollision_policy [of twoSpheres 0 1
      "\<lparr>direction = Vector3 (- 1) 0 0, overlap = 1, normal = Vector3 (- 1) 0 0\<rparr>" 1]
  by (simp add: twoSpheres_def newCollider_def vec_defs)

section \<open>What a tick may touch\<close>

lemma updateWorldPosition_fields [simp]:
  "idC (updateWorldPosition T N c) = idC c"
  "activeCollisions (updateWorldPosition T N c) = activeCollisions c"
  "enabled (updateWorldPosition T N c) = enabled c"
  "layer (updateWorldPosition T N c) = layer c"
  "collidesWithMask (updateWorldPosition T N c) = collidesWithMask c"
  "isTrigger (updateWorldPosition T N c) = isTrigger c"
  "isStatic (updateWorldPosition T N c) = isStatic c"
  "parent (updateWorldPosition T N c) = parent c"
  "onCollisionEnter (updateWorldPosition T N c) = onCollisionEnter c"
  "onCollisionStay (updateWorldPosition T N c) = onCollisionStay c"
  "onCollisionExit (updateWorldPosition T N c) = onCollisionExit c"
  by (simp_all add: updateWorldPosition_def Collider_updateWorldPosition_def
      CylinderCollider_updateWorldPosition_def Let_def split: Shape.splits option.splits)

lemma confined_refl: "confined S w w"
  by (simp add: confined_def)

lemma confined_trans:
  assumes "confined S w w'" and "confined S w' w''"
  shows "confined S w w''"
proof -
  from assms obtain n1 n2 where
    e1: "events w' = events w @ n1" "\<forall>e \<in> set n1. eventRefs e \<subseteq> S" and
    e2: "events w'' = events w' @ n2" "\<forall>e \<in> set n2. eventRefs e \<subseteq> S"
    unfolding confined_def by blast
  have ev: "\<exists>new. events w'' = events w @ new \<and> (\<forall>e \<in> set new. eventRefs e \<subseteq> S)"
    using e1 e2 by (intro exI [of _ "n1 @ n2"]) auto
  have ids: "\<forall>r. idC (heap w'' r) = idC (heap w r)"
    using assms unfolding confined_def by simp
  have act: "\<forall>r. set (activeCollisions (heap w'' r))
            \<subseteq> set (activeCollisions (heap w r)) \<union> {idC (heap w x) |x. x \<in> S \<and> x \<noteq> r}"
  proof
    fix r
    have a: "set (activeCollisions (heap w'' r))
            \<subseteq> set (activeCollisions (heap w' r)) \<union> {idC (heap w' x) |x. x \<in> S \<and> x \<noteq> r}"
      using assms(2) unfolding confined_def by blast
    have b: "set (activeCollisions (heap w' r))
            \<subseteq> set (activeCollisions (heap w r)) \<union> {idC (heap w x) |x. x \<in> S \<and> x \<noteq> r}"
      using assms(1) unfolding confined_def by blast
    have c: "{idC (heap w' x) |x. x \<in> S \<and> x \<noteq> r} = {idC (heap w x) |x. x \<in> S \<and> x \<noteq> r}"
      using assms(1) unfolding confined_def by simp
    show "set (activeCollisions (heap w'' r))
            \<subseteq> set (activeCollisions (heap w r)) \<union> {idC (heap w x) |x. x \<in> S \<and> x \<noteq> r}"
      using a b c by blast
  qed
  have out: "\<forall>r. r \<notin> S \<longrightarrow> heap w'' r = heap w r"
    using assms unfolding confined_def by simp
  have reg: "colliders w'' = colliders w"
    using assms unfolding confined_def by simp
  show ?thesis
    unfolding confined_def using reg ids out act ev by blast
qed

lemma confined_refreshPosition: "r \<in> S \<Longrightarrow> confined S w (refreshPosition w r)"
  by (auto simp add: confined_def refreshPosition_def)

lemma confined_checkCollision:
  "a \<in> S \<Longrightarrow> b \<in> S \<Longrightarrow> confined S w (snd (checkCollision w a b))"
  by (auto simp add: checkCollision_def Let_def confined_refl
      intro: confined_trans [OF confined_refreshPosition confined_refreshPosition])

lemma confined_getCollisionResponse:
  "a \<in> S \<Longrightarrow> b \<in> S \<Longrightarrow> confined S w (snd (getCollisionResponse w a b))"
  by (auto simp add: getCollisionResponse_def Let_def
      intro: confined_trans [OF confined_refreshPosition confined_refreshPosition])

lemma confined_activeAdd:
  "r \<in> S \<Longrightarrow> x \<in> S \<Longrightarrow> x \<noteq> r \<Longrightarrow> confined S w (activeAdd w r (idC (heap w x)))"
  by (auto simp add: confined_def activeAdd_def setAdd_def)

lemma confined_emit: "eventRefs e \<subseteq> S \<Longrightarrow> confined S w (emit w flag e)"
  by (auto simp add: confined_def emit_def)

lemma confined_resolveCollision: "confined S w (resolveCollision w a b response)"
  by (auto simp add: confined_def resolveCollision_def positionAdd_def positionSub_def Let_def
      split: option.splits)


lemma confined_pairStep:
  assumes "a \<in> S" and "b \<in> S" and "a \<noteq> b"
  shows "confined S w (fst (snd (pairStep a b (w, cur))))"
proof -
  obtain hit w1 where c: "checkCollision w a b = (hit, w1)"
    by (cases "checkCollision w a b")
  have s1: "confined S w w1"
    using confined_checkCollision [OF assms(1,2), of w] c by simp
  show ?thesis
  proof (cases hit)
    case False
    then show ?thesis using c s1 by (simp add: pairStep_def)
  next
    case True
    obtain res w2 where g: "getCollisionResponse w1 a b = (res, w2)"
      by (cases "getCollisionResponse w1 a b")
    have s2: "confined S w w2"
      using confined_trans [OF s1 confined_getCollisionResponse [OF assms(1,2), of w1]] g by simp
    show ?thesis
    proof (cases res)
      case (Inl e)
      then show ?thesis using c g True s2 by (simp add: pairStep_def Let_def)
    next
      case (Inr response)
      define w4 where "w4 = activeAdd w2 a (idC (heap w2 b))"
      define w5 where "w5 = activeAdd w4 b (idC (heap w4 a))"
      define w6 where "w6 = emit w5 (onCollisionEnter (heap w5 a)) (CollisionEnter a b response)"
      define w7 where "w7 = emit w6 (onCollisionEnter (heap w6 b))
                              (CollisionEnter b a (responseForB response))"
      define v6 where "v6 = emit w2 (onCollisionStay (heap w2 a)) (CollisionStay a b response)"
      define v7 where "v7 = emit v6 (onCollisionStay (heap v6 b))
                              (CollisionStay b a (responseForB response))"
      have refs: "eventRefs (CollisionEnter a b response) \<subseteq> S"
        "eventRefs (CollisionEnter b a (responseForB response)) \<subseteq> S"
        "eventRefs (CollisionStay a b response) \<subseteq> S"
        "eventRefs (CollisionStay b a (responseForB response)) \<subseteq> S"
        using assms by simp_all
      have "confined S w2 w4"
        unfolding w4_def using assms by (intro confined_activeAdd) auto
      moreover have "confined S w4 w5"
        unfolding w5_def using assms by (intro confined_activeAdd) auto
      moreover have "confined S w5 w6"
        unfolding w6_def by (rule confined_emit [OF refs(1)])
      moreover have "confined S w6 w7"
        unfolding w7_def by (rule confined_emit [OF refs(2)])
      ultimately have enter: "confined S w w7"
        using s2 by (blast intro: confined_trans)
      have "confined S w2 v6"
        unfolding v6_def by (rule confined_emit [OF refs(3)])
      moreover have "confined S v6 v7"
        unfolding v7_def by (rule confined_emit [OF refs(4)])
      ultimately have stay: "confined S w v7"
        using s2 by (blast intro: confined_trans)
      have res_enter: "confined S w (resolveCollision w7 a b response)"
        by (rule confined_trans [OF enter confined_resolveCollision])
      have res_stay: "confined S w (resolveCollision v7 a b response)"
        by (rule confined_trans [OF stay confined_resolveCollision])
      show ?thesis
        using c g True Inr res_enter res_stay
        by (simp add: pairStep_def Let_def w4_def w5_def w6_def w7_def v6_def v7_def)
    qed
  qed
qed

lemma pairStep_cases:
  obtains e w' cur' where "pairStep a b (w, cur) = (e, w', cur')"
  by (cases "pairStep a b (w, cur)") auto

lemma confined_innerLoop:
  "a \<in> S \<Longrightarrow> set bs \<subseteq> S \<Longrightarrow> a \<notin> set bs \<Longrightarrow>
   confined S w (fst (snd (innerLoop a bs (w, cur))))"
proof (induction bs arbitrary: w cur)
  case Nil
  then show ?case by (simp add: confined_refl)
next
  case (Cons b bs)
  obtain e w' cur' where p: "pairStep a b (w, cur) = (e, w', cur')"
    by (rule pairStep_cases)
  have st: "confined S w w'"
    using confined_pairStep [of a S b w cur] Cons.prems p by simp
  show ?case
  proof (cases e)
    case None
    have "confined S w' (fst (snd (innerLoop a bs (w', cur'))))"
      using Cons.IH [of w' cur'] Cons.prems by simp
    then show ?thesis using p None st by (simp add: confined_trans [OF st])
  next
    case (Some err)
    then show ?thesis using p st by simp
  qed
qed

lemma innerLoop_cases:
  obtains e w' cur' where "innerLoop a bs (w, cur) = (e, w', cur')"
  by (cases "innerLoop a bs (w, cur)") auto

lemma confined_outerLoop:
  "set arr \<subseteq> S \<Longrightarrow> distinct arr \<Longrightarrow>
   confined S w (fst (snd (outerLoop arr (w, cur))))"
proof (induction arr arbitrary: w cur)
  case Nil
  then show ?case by (simp add: confined_refl)
next
  case (Cons a rest)
  obtain e w' cur' where p: "innerLoop a rest (w, cur) = (e, w', cur')"
    by (rule innerLoop_cases)
  have st: "confined S w w'"
    using confined_innerLoop [of a S rest w cur] Cons.prems p by simp
  show ?case
  proof (cases e)
    case None
    have "confined S w' (fst (snd (outerLoop rest (w', cur'))))"
      using Cons.IH [of w' cur'] Cons.prems by simp
    then show ?thesis using p None by (simp add: confined_trans [OF st])
  next
    case (Some err)
    then show ?thesis using p st by simp
  qed
qed

lemma exitScan_refs:
  "\<forall>e \<in> set (snd (exitScan w cur r ks)). eventRefs e \<subseteq> insert r (snd ` set (colliders w))"
proof (induction ks)
  case Nil
  then show ?case by simp
next
  case (Cons k ks)
  obtain rm evs where s: "exitScan w cur r ks = (rm, evs)"
    by (cases "exitScan w cur r ks")
  have "map_of (colliders w) k = Some other \<Longrightarrow> other \<in> snd ` set (colliders w)" for other
    by (metis map_of_SomeD snd_conv image_eqI)
  then show ?case
    using Cons.IH s by (auto split: option.splits)
qed

lemma confined_exitStep:
  assumes "r \<in> S" and "snd ` set (colliders w) \<subseteq> S"
  shows "confined S w (exitStep cur w r)"
proof -
  obtain rm evs where s: "exitScan w cur r (activeCollisions (heap w r)) = (rm, evs)"
    by (cases "exitScan w cur r (activeCollisions (heap w r))")
  have "\<forall>e \<in> set evs. eventRefs e \<subseteq> S"
    using exitScan_refs [of w cur r "activeCollisions (heap w r)"] s assms by auto
  then show ?thesis
    using s assms(1) by (auto simp add: confined_def exitStep_def)
qed

lemma confined_exitPass:
  "set arr \<subseteq> S \<Longrightarrow> snd ` set (colliders w) \<subseteq> S \<Longrightarrow>
   confined S w (foldl (exitStep cur) w arr)"
proof (induction arr arbitrary: w)
  case Nil
  then show ?case by (simp add: confined_refl)
next
  case (Cons r arr)
  have st: "confined S w (exitStep cur w r)"
    using confined_exitStep Cons.prems by simp
  then have "colliders (exitStep cur w r) = colliders w"
    by (simp add: confined_def)
  then have "confined S (exitStep cur w r) (foldl (exitStep cur) (exitStep cur w r) arr)"
    using Cons.IH [of "exitStep cur w r"] Cons.prems by simp
  then show ?case using st by (simp add: confined_trans [OF st])
qed

lemma confined_refreshAll:
  "set arr \<subseteq> S \<Longrightarrow> confined S w (foldl refreshPosition w arr)"
proof (induction arr arbitrary: w)
  case Nil
  then show ?case by (simp add: confined_refl)
next
  case (Cons r arr)
  have st: "confined S w (refreshPosition w r)"
    using confined_refreshPosition Cons.prems by simp
  show ?case
    using Cons.IH [of "refreshPosition w r"] Cons.prems by (simp add: confined_trans [OF st])
qed

lemma outerLoop_cases:
  obtains e w' cur' where "outerLoop arr (w, cur) = (e, w', cur')"
  by (cases "outerLoop arr (w, cur)") auto

lemma confined_update:
  assumes "distinct (map snd (colliders w))"
  shows "confined (snd ` set (colliders w)) w (snd (update w))"
proof -
  define S where "S = snd ` set (colliders w)"
  define arr where "arr = map snd (colliders w)"
  define w0 where "w0 = foldl refreshPosition w arr"
  have sub: "set arr \<subseteq> S" by (simp add: S_def arr_def)
  have s0: "confined S w w0"
    unfolding w0_def by (rule confined_refreshAll [OF sub])
  obtain e w1 cur where o: "outerLoop arr (w0, {}) = (e, w1, cur)"
    by (rule outerLoop_cases)
  have s1: "confined S w0 w1"
    using confined_outerLoop [OF sub, of w0 "{}"] assms o by (simp add: arr_def)
  have s01: "confined S w w1" by (rule confined_trans [OF s0 s1])
  then have reg: "colliders w1 = colliders w" by (simp add: confined_def)
  have s2: "confined S w1 (foldl (exitStep cur) w1 arr)"
    by (rule confined_exitPass [OF sub]) (simp add: reg S_def)
  have "confined S w (snd (update w))"
    using o s01 confined_trans [OF s01 s2]
    by (cases e) (simp_all add: update_def Let_def arr_def [symmetric] w0_def [symmetric])
  then show ?thesis by (simp add: S_def)
qed


subsection \<open>Invariants of a run\<close>

lemma registryOk_distinct_refs:
  assumes "registryOk w"
  shows "distinct (map snd (colliders w))"
proof -
  have "map fst (colliders w) = map (\<lambda>r. idC (heap w r)) (map snd (colliders w))"
    using assms by (auto simp add: registryOk_def list_all_iff)
  moreover have "distinct (map fst (colliders w))"
    using assms by (simp add: registryOk_def)
  ultimately have "distinct (map (\<lambda>r. idC (heap w r)) (map snd (colliders w)))"
    by metis
  then show ?thesis by (auto simp add: distinct_map intro: inj_on_imageI2)
qed

lemma registryOk_ids_differ:
  assumes "registryOk w" and "x \<in> snd ` set (colliders w)" and "y \<in> snd ` set (colliders w)"
    and "x \<noteq> y"
  shows "idC (heap w x) \<noteq> idC (heap w y)"
proof
  assume eq: "idC (heap w x) = idC (heap w y)"
  from assms(2,3) obtain kx ky where
    m: "(kx, x) \<in> set (colliders w)" "(ky, y) \<in> set (colliders w)" by auto
  then have "idC (heap w x) = kx" "idC (heap w y) = ky"
    using assms(1) by (auto simp add: registryOk_def list_all_iff)
  then have "kx = ky" using eq by simp
  then have "x = y"
    using m assms(1) by (auto simp add: registryOk_def dest: eq_key_imp_eq_value)
  then show False using assms(4) by simp
qed

lemma confined_registryOk: "confined S w w' \<Longrightarrow> registryOk w \<Longrightarrow> registryOk w'"
  by (simp add: confined_def registryOk_def)

lemma confined_noSelf:
  assumes "confined S w w'" and "noSelf w"
    and "\<And>x y. x \<in> S \<Longrightarrow> y \<in> S \<Longrightarrow> x \<noteq> y \<Longrightarrow> idC (heap w x) \<noteq> idC (heap w y)"
  shows "noSelf w'"
  unfolding noSelf_def
proof
  fix r
  show "idC (heap w' r) \<notin> set (activeCollisions (heap w' r))"
  proof (cases "r \<in> S")
    case False
    then have "heap w' r = heap w r" using assms(1) by (simp add: confined_def)
    then show ?thesis using assms(2) by (simp add: noSelf_def)
  next
    case True
    have i: "idC (heap w' r) = idC (heap w r)" using assms(1) by (simp add: confined_def)
    have sub: "set (activeCollisions (heap w' r))
            \<subseteq> set (activeCollisions (heap w r)) \<union> {idC (heap w x) |x. x \<in> S \<and> x \<noteq> r}"
      using assms(1) by (simp add: confined_def)
    have "idC (heap w r) \<notin> set (activeCollisions (heap w r))"
      using assms(2) by (simp add: noSelf_def)
    moreover have "idC (heap w r) \<notin> {idC (heap w x) |x. x \<in> S \<and> x \<noteq> r}"
      using assms(3) True by fastforce
    ultimately show ?thesis using i sub by auto
  qed
qed

lemma update_confined:
  "registryOk w \<Longrightarrow> confined (snd ` set (colliders w)) w (snd (update w))"
  by (rule confined_update [OF registryOk_distinct_refs])

lemma update_registryOk: "registryOk w \<Longrightarrow> registryOk (snd (update w))"
  by (rule confined_registryOk [OF update_confined])

lemma update_noSelf: "registryOk w \<Longrightarrow> noSelf w \<Longrightarrow> noSelf (snd (update w))"
  by (rule confined_noSelf [OF update_confined]) (auto dest: registryOk_ids_differ)

lemma addCollider_registryOk: "registryOk w \<Longrightarrow> registryOk (fst (addCollider w r))"
  by (auto simp add: addCollider_def registryOk_def map_of_eq_None_iff)

lemma removeCollider_registryOk: "registryOk w \<Longrightarrow> registryOk (removeCollider w k)"
proof -
  assume ok: "registryOk w"
  show ?thesis
  proof (cases "map_of (colliders w) k")
    case None
    then show ?thesis using ok by (simp add: removeCollider_def)
  next
    case (Some r)
    have "distinct (map fst (filter (\<lambda>e. fst e \<noteq> k) (colliders w)))"
      using ok by (simp add: registryOk_def distinct_map_filter)
    then show ?thesis
      using ok Some by (auto simp add: removeCollider_def registryOk_def list_all_iff dispose_def)
  qed
qed

lemma exec_registryOk: "registryOk w \<Longrightarrow> registryOk (exec w a)"
proof (cases a)
  case Tick
  assume "registryOk w"
  then show ?thesis using Tick by (simp add: update_registryOk)
next
  case (MoveTo t p)
  assume "registryOk w"
  then show ?thesis using MoveTo by (simp add: registryOk_def)
next
  case (SetEnabled r v)
  assume "registryOk w"
  then show ?thesis using SetEnabled by (auto simp add: registryOk_def list_all_iff)
next
  case (AddCollider r)
  assume "registryOk w"
  then show ?thesis using AddCollider by (simp add: addCollider_registryOk)
next
  case (RemoveCollider k)
  assume "registryOk w"
  then show ?thesis using RemoveCollider by (simp add: removeCollider_registryOk)
qed

lemma exec_noSelf: "registryOk w \<Longrightarrow> noSelf w \<Longrightarrow> noSelf (exec w a)"
proof (cases a)
  case Tick
  assume "registryOk w" "noSelf w"
  then show ?thesis using Tick by (simp add: update_noSelf)
next
  case (MoveTo t p)
  assume "noSelf w"
  then show ?thesis using MoveTo by (simp add: noSelf_def)
next
  case (SetEnabled r v)
  assume "noSelf w"
  then show ?thesis using SetEnabled by (simp add: noSelf_def)
next
  case (AddCollider r)
  assume "noSelf w"
  then show ?thesis using AddCollider by (simp add: noSelf_def addCollider_def)
next
  case (RemoveCollider k)
  assume "noSelf w"
  then show ?thesis
    using RemoveCollider
    by (auto simp add: noSelf_def removeCollider_def dispose_def split: option.splits)
qed

lemma run_invariant:
  "registryOk w \<Longrightarrow> noSelf w \<Longrightarrow> registryOk (run w acts) \<and> noSelf (run w acts)"
  unfolding run_def
proof (induction acts arbitrary: w)
  case Nil
  then show ?case by simp
next
  case (Cons a acts)
  then show ?case using exec_registryOk exec_noSelf by simp
qed


lemma twoSpheres_tick: "update twoSpheres = (None, twoSpheresTicked)"
  by (simp add: twoSpheres_def twoSpheresTicked_def newCollider_def system_defs vec_defs shape_defs
      fun_eq_iff)

text \<open>
  Claim C10. \<open>canCollideWith\<close> of a collider with itself is false, so
  \<open>checkCollision\<close> of a collider with itself is false; and in every state that ticks,
  moves of parents, registrations and removals reach from a state whose registry is as
  \<open>addCollider\<close> builds it and in which no collider holds its own id (a new collider
  holds none), no collider's active set contains its own id.
\<close>

theorem C10_never_self:
  "registryOk w \<Longrightarrow> noSelf w \<Longrightarrow>
   \<not> canCollideWith (heap (run w acts)) r r \<and>
   \<not> fst (checkCollision (run w acts) r r) \<and>
   idC (heap (run w acts) r) \<notin> set (activeCollisions (heap (run w acts) r))"
  using run_invariant [of w acts]
  by (simp add: canCollideWith_def checkCollision_def noSelf_def)

theorem C10_never_self_witness:
  "registryOk twoSpheres \<and> noSelf twoSpheres \<and>
   run twoSpheres [Tick] = twoSpheresTicked \<and>
   activeCollisions (heap (run twoSpheres [Tick]) 0) = [''b''] \<and>
   \<not> canCollideWith (heap (run twoSpheres [Tick])) 0 0 \<and>
   \<not> fst (checkCollision (run twoSpheres [Tick]) 0 0) \<and>
   idC (heap (run twoSpheres [Tick]) 0) \<notin> set (activeCollisions (heap (run twoSpheres [Tick]) 0))"
proof -
  have ok: "registryOk twoSpheres"
    by (simp add: registryOk_def twoSpheres_def newCollider_def)
  have ns: "noSelf twoSpheres"
    by (simp add: noSelf_def twoSpheres_def newCollider_def)
  have r: "run twoSpheres [Tick] = twoSpheresTicked"
    by (simp add: run_def twoSpheres_tick)
  have a: "activeCollisions (heap twoSpheresTicked 0) = [''b'']"
    by (simp add: twoSpheresTicked_def)
  show ?thesis
    using ok ns r a C10_never_self [OF ok ns, of "[Tick]" 0] by simp
qed

section \<open>Removal\<close>

lemma exitScan_unregistered:
  "map_of (colliders w) k = None \<Longrightarrow> k \<in> set ks \<Longrightarrow> k \<in> set (fst (exitScan w cur r ks))"
proof (induction ks)
  case Nil
  then show ?case by simp
next
  case (Cons x ks)
  obtain rm evs where s: "exitScan w cur r ks = (rm, evs)"
    by (cases "exitScan w cur r ks")
  show ?case
    using Cons s by (auto split: option.splits)
qed

lemma exitStep_colliders [simp]: "colliders (exitStep cur w r) = colliders w"
  by (simp add: exitStep_def split_beta)

lemma exitStep_active_subset:
  "set (activeCollisions (heap (exitStep cur w r) p)) \<subseteq> set (activeCollisions (heap w p))"
  by (auto simp add: exitStep_def split_beta)

lemma exitStep_purges:
  assumes "map_of (colliders w) k = None"
  shows "k \<notin> set (activeCollisions (heap (exitStep cur w r) r))"
  using exitScan_unregistered [OF assms, of "activeCollisions (heap w r)" cur r]
  by (auto simp add: exitStep_def split_beta)

lemma exitPass_keeps:
  "k \<notin> set (activeCollisions (heap w p)) \<Longrightarrow>
   k \<notin> set (activeCollisions (heap (foldl (exitStep cur) w arr) p))"
proof (induction arr arbitrary: w)
  case Nil
  then show ?case by simp
next
  case (Cons r arr)
  have "k \<notin> set (activeCollisions (heap (exitStep cur w r) p))"
    using Cons.prems exitStep_active_subset [of cur w r p] by blast
  then show ?case using Cons.IH by simp
qed

lemma exitPass_purges:
  "map_of (colliders w) k = None \<Longrightarrow> p \<in> set arr \<Longrightarrow>
   k \<notin> set (activeCollisions (heap (foldl (exitStep cur) w arr) p))"
proof (induction arr arbitrary: w)
  case Nil
  then show ?case by simp
next
  case (Cons r arr)
  show ?case
  proof (cases "p = r")
    case True
    have "k \<notin> set (activeCollisions (heap (exitStep cur w r) p))"
      using exitStep_purges [OF Cons.prems(1)] True by simp
    then show ?thesis using exitPass_keeps by simp
  next
    case False
    then have "p \<in> set arr" using Cons.prems by simp
    then show ?thesis using Cons.IH [of "exitStep cur w r"] Cons.prems(1) by simp
  qed
qed

lemma update_purges:
  assumes "registryOk w" and "map_of (colliders w) k = None" and "fst (update w) = None"
    and "p \<in> snd ` set (colliders w)"
  shows "k \<notin> set (activeCollisions (heap (snd (update w)) p))"
proof -
  define arr where "arr = map snd (colliders w)"
  define w0 where "w0 = foldl refreshPosition w arr"
  obtain e w1 cur where o: "outerLoop arr (w0, {}) = (e, w1, cur)"
    by (rule outerLoop_cases)
  have e: "e = None"
    using assms(3) o by (cases e) (simp_all add: update_def Let_def arr_def w0_def)
  have sub: "set arr \<subseteq> snd ` set (colliders w)" by (simp add: arr_def)
  have "confined (snd ` set (colliders w)) w w0"
    unfolding w0_def by (rule confined_refreshAll [OF sub])
  moreover have "confined (snd ` set (colliders w)) w0 w1"
    using confined_outerLoop [OF sub, of w0 "{}"] registryOk_distinct_refs [OF assms(1)] o
    by (simp add: arr_def)
  ultimately have "colliders w1 = colliders w"
    by (simp add: confined_def)
  then have none: "map_of (colliders w1) k = None" using assms(2) by simp
  have "p \<in> set arr" using assms(4) by (simp add: arr_def)
  then have "k \<notin> set (activeCollisions (heap (foldl (exitStep cur) w1 arr) p))"
    by (rule exitPass_purges [OF none])
  then show ?thesis
    using o e by (simp add: update_def Let_def arr_def [symmetric] w0_def [symmetric])
qed

lemma exec_keeps_unregistered:
  assumes "registryOk w" and "r \<notin> snd ` set (colliders w)" and "a \<noteq> AddCollider r"
  shows "r \<notin> snd ` set (colliders (exec w a))"
proof (cases a)
  case Tick
  have "colliders (snd (update w)) = colliders w"
    using update_confined [OF assms(1)] by (simp add: confined_def)
  then show ?thesis using Tick assms by simp
next
  case (MoveTo t p)
  then show ?thesis using assms by simp
next
  case (SetEnabled r' v)
  then show ?thesis using assms by simp
next
  case (AddCollider r')
  then show ?thesis using assms by (auto simp add: addCollider_def)
next
  case (RemoveCollider k)
  then show ?thesis using assms by (auto simp add: removeCollider_def split: option.splits)
qed

lemma exec_events:
  assumes "registryOk w" and "r \<notin> snd ` set (colliders w)"
  shows "\<exists>new. events (exec w a) = events w @ new \<and> (\<forall>e \<in> set new. r \<notin> eventRefs e)"
proof (cases a)
  case Tick
  obtain new where n: "events (snd (update w)) = events w @ new"
    "\<forall>e \<in> set new. eventRefs e \<subseteq> snd ` set (colliders w)"
    using update_confined [OF assms(1)] unfolding confined_def by blast
  have "\<forall>e \<in> set new. r \<notin> eventRefs e"
    using n(2) assms(2) by blast
  then show ?thesis using Tick n(1) by auto
next
  case (MoveTo t p)
  then show ?thesis by simp
next
  case (SetEnabled r' v)
  then show ?thesis by simp
next
  case (AddCollider r')
  then show ?thesis by (simp add: addCollider_def)
next
  case (RemoveCollider k)
  then show ?thesis by (simp add: removeCollider_def split: option.splits)
qed

lemma run_events:
  "registryOk w \<Longrightarrow> r \<notin> snd ` set (colliders w) \<Longrightarrow> \<forall>a \<in> set acts. a \<noteq> AddCollider r \<Longrightarrow>
   \<exists>new. events (run w acts) = events w @ new \<and> (\<forall>e \<in> set new. r \<notin> eventRefs e)"
  unfolding run_def
proof (induction acts arbitrary: w)
  case Nil
  then show ?case by simp
next
  case (Cons a acts)
  obtain n1 where n1: "events (exec w a) = events w @ n1" "\<forall>e \<in> set n1. r \<notin> eventRefs e"
    using exec_events [OF Cons.prems(1,2)] by blast
  have ok: "registryOk (exec w a)" by (rule exec_registryOk [OF Cons.prems(1)])
  have un: "r \<notin> snd ` set (colliders (exec w a))"
    using exec_keeps_unregistered [OF Cons.prems(1,2)] Cons.prems(3) by simp
  obtain n2 where n2: "events (foldl exec (exec w a) acts) = events (exec w a) @ n2"
    "\<forall>e \<in> set n2. r \<notin> eventRefs e"
    using Cons.IH [OF ok un] Cons.prems(3) by auto
  show ?case
    using n1 n2 by (intro exI [of _ "n1 @ n2"]) auto
qed

lemma removeCollider_unregisters:
  assumes "registryOk w" and "map_of (colliders w) k = Some r"
  shows "r \<notin> snd ` set (colliders (removeCollider w k))"
proof
  assume "r \<in> snd ` set (colliders (removeCollider w k))"
  then obtain k' where m: "(k', r) \<in> set (colliders w)" "k' \<noteq> k"
    using assms(2) by (auto simp add: removeCollider_def)
  have "(k, r) \<in> set (colliders w)" using assms(2) by (rule map_of_SomeD)
  then have "idC (heap w r) = k" "idC (heap w r) = k'"
    using m(1) assms(1) by (auto simp add: registryOk_def list_all_iff)
  then show False using m(2) by simp
qed

lemma removeCollider_lookup:
  "map_of (colliders (removeCollider w k)) k = None"
  by (auto simp add: removeCollider_def map_of_eq_None_iff split: option.splits)

lemmas trigger_defs = twoTriggers_def twoTriggersTicked_def triggerSphere_def newCollider_def
  pushLeft_def pushRight_def

lemma twoTriggers_tick: "update twoTriggers = (None, twoTriggersTicked)"
  by (simp add: trigger_defs system_defs vec_defs shape_defs fun_eq_iff)

lemma twoTriggers_still_overlap: "fst (checkCollision twoTriggersTicked 0 1)"
  by (simp add: trigger_defs system_defs vec_defs shape_defs)

lemma twoTriggers_removed_tick:
  "update (removeCollider twoTriggersTicked ''b'')
     = (None, (removeCollider twoTriggersTicked ''b'')
          \<lparr>heap := (heap (removeCollider twoTriggersTicked ''b''))
              (0 := (heap twoTriggersTicked 0)\<lparr>activeCollisions := []\<rparr>)\<rparr>)"
  by (simp add: trigger_defs removeCollider_def dispose_def system_defs
      vec_defs shape_defs fun_eq_iff)

lemma run_registryOk: "registryOk w \<Longrightarrow> registryOk (run w acts)"
  unfolding run_def
  by (induction acts arbitrary: w) (simp_all add: exec_registryOk)

lemma unregistered_id:
  assumes "registryOk w" and "map_of (colliders w) k = None" and "x \<in> snd ` set (colliders w)"
  shows "idC (heap w x) \<noteq> k"
proof
  assume eq: "idC (heap w x) = k"
  from assms(3) obtain k' where m: "(k', x) \<in> set (colliders w)" by auto
  then have "idC (heap w x) = k'"
    using assms(1) by (auto simp add: registryOk_def list_all_iff)
  then have "(k, x) \<in> set (colliders w)" using m eq by simp
  then have "k \<in> fst ` set (colliders w)" by force
  then show False using assms(2) by (simp add: map_of_eq_None_iff)
qed

lemma update_silent_purge:
  assumes ok: "registryOk w" and un: "map_of (colliders w) k = None"
    and fin: "fst (update w) = None"
  shows "(\<forall>p \<in> snd ` set (colliders w). k \<notin> set (activeCollisions (heap (snd (update w)) p))) \<and>
         (\<exists>new. events (snd (update w)) = events w @ new \<and>
                (\<forall>e \<in> set new. \<forall>x \<in> eventRefs e. idC (heap w x) \<noteq> k))"
proof -
  have purge: "\<forall>p \<in> snd ` set (colliders w). k \<notin> set (activeCollisions (heap (snd (update w)) p))"
    using update_purges [OF ok un fin] by blast
  obtain new where new: "events (snd (update w)) = events w @ new"
    "\<forall>e \<in> set new. eventRefs e \<subseteq> snd ` set (colliders w)"
    using update_confined [OF ok] unfolding confined_def by blast
  have "\<forall>e \<in> set new. \<forall>x \<in> eventRefs e. idC (heap w x) \<noteq> k"
    using new(2) unregistered_id [OF ok un] by blast
  then show ?thesis using purge new(1) by blast
qed

text \<open>
  Claim C3, as stated, says that removing a collider purges its id from the partners'
  active sets at once and fires one \<open>onExit\<close> on each partner. In \<open>twoTriggers\<close>
  after one tick the spheres \<open>a\<close> and \<open>b\<close> overlap, and still do, and each holds the
  other's id. After \<open>removeCollider\<close> of \<open>b\<close> the active set of \<open>a\<close> still holds
  \<open>b\<close> and no callback was called, and the next tick completes without any callback
  too: the log is the two enter calls of the first tick.
\<close>

theorem C3_removal_counterexample:
  "update twoTriggers = (None, twoTriggersTicked) \<and>
   map_of (colliders twoTriggersTicked) ''b'' = Some 1 \<and>
   fst (checkCollision twoTriggersTicked 0 1) \<and>
   ''b'' \<in> set (activeCollisions (heap twoTriggersTicked 0)) \<and>
   ''b'' \<in> set (activeCollisions (heap (removeCollider twoTriggersTicked ''b'') 0)) \<and>
   events (removeCollider twoTriggersTicked ''b'') = events twoTriggersTicked \<and>
   fst (update (removeCollider twoTriggersTicked ''b'')) = None \<and>
   events (snd (update (removeCollider twoTriggersTicked ''b''))) = events twoTriggersTicked \<and>
   events twoTriggersTicked = [CollisionEnter 0 1 pushLeft, CollisionEnter 1 0 pushRight]"
  using twoTriggers_tick twoTriggers_still_overlap twoTriggers_removed_tick
  by (simp add: twoTriggers_def twoTriggersTicked_def removeCollider_def triggerSphere_def
      newCollider_def)

text \<open>
  Claim C3, amended. For a registered collider R with id \<open>k\<close>: \<open>removeCollider\<close>
  empties R's own active set, takes R out of the registry, calls no callback and changes
  no other collider, so R's id stays in the active sets of its partners. Whatever the
  game does next (\<open>before\<close>), a tick that starts while no collider is registered under
  \<open>k\<close> and that completes deletes \<open>k\<close> from the active set of every registered
  collider, and none of its callbacks has a collider with the id \<open>k\<close> as receiver or as
  the other collider: the id is purged without an \<open>onExit\<close>. This is the first tick
  after the removal unless a collider was registered under \<open>k\<close> again before it. And as
  long as R itself is not registered again, no callback of any tick has R as receiver or
  as the other collider.
\<close>

theorem C3_removal:
  "registryOk w \<Longrightarrow> map_of (colliders w) k = Some r \<Longrightarrow>
   activeCollisions (heap (removeCollider w k) r) = [] \<and>
   getCollider (removeCollider w k) k = None \<and>
   (\<forall>p. p \<noteq> r \<longrightarrow> heap (removeCollider w k) p = heap w p) \<and>
   events (removeCollider w k) = events w \<and>
   (getCollider (run (removeCollider w k) before) k = None \<and>
    fst (update (run (removeCollider w k) before)) = None \<longrightarrow>
      (\<forall>p \<in> snd ` set (colliders (run (removeCollider w k) before)).
         k \<notin> set (activeCollisions (heap (snd (update (run (removeCollider w k) before))) p))) \<and>
      (\<exists>new. events (snd (update (run (removeCollider w k) before)))
                = events (run (removeCollider w k) before) @ new \<and>
             (\<forall>e \<in> set new. \<forall>x \<in> eventRefs e.
                idC (heap (run (removeCollider w k) before) x) \<noteq> k))) \<and>
   ((\<forall>a \<in> set acts. a \<noteq> AddCollider r) \<longrightarrow>
      (\<exists>new. events (run (removeCollider w k) acts) = events w @ new \<and>
             (\<forall>e \<in> set new. r \<notin> eventRefs e)))"
proof -
  assume ok: "registryOk w" and reg: "map_of (colliders w) k = Some r"
  have ok': "registryOk (removeCollider w k)" by (rule removeCollider_registryOk [OF ok])
  have own: "activeCollisions (heap (removeCollider w k) r) = []"
    using reg by (simp add: removeCollider_def dispose_def)
  have gone: "getCollider (removeCollider w k) k = None"
    by (simp add: getCollider_def removeCollider_lookup)
  have others: "\<forall>p. p \<noteq> r \<longrightarrow> heap (removeCollider w k) p = heap w p"
    using reg by (simp add: removeCollider_def)
  have quiet: "events (removeCollider w k) = events w"
    using reg by (simp add: removeCollider_def)
  have purge: "getCollider (run (removeCollider w k) before) k = None \<and>
    fst (update (run (removeCollider w k) before)) = None \<longrightarrow>
      (\<forall>p \<in> snd ` set (colliders (run (removeCollider w k) before)).
         k \<notin> set (activeCollisions (heap (snd (update (run (removeCollider w k) before))) p))) \<and>
      (\<exists>new. events (snd (update (run (removeCollider w k) before)))
                = events (run (removeCollider w k) before) @ new \<and>
             (\<forall>e \<in> set new. \<forall>x \<in> eventRefs e.
                idC (heap (run (removeCollider w k) before) x) \<noteq> k))"
    using update_silent_purge [OF run_registryOk [OF ok'], of before k]
    by (simp add: getCollider_def)
  have later: "(\<forall>a \<in> set acts. a \<noteq> AddCollider r) \<longrightarrow>
      (\<exists>new. events (run (removeCollider w k) acts) = events w @ new \<and>
             (\<forall>e \<in> set new. r \<notin> eventRefs e))"
    using run_events [OF ok' removeCollider_unregisters [OF ok reg], of acts] quiet by simp
  show ?thesis
    using own gone others quiet purge later by blast
qed

theorem C3_removal_witness:
  "registryOk twoTriggersTicked \<and>
   map_of (colliders twoTriggersTicked) ''b'' = Some 1 \<and>
   activeCollisions (heap (removeCollider twoTriggersTicked ''b'') 1) = [] \<and>
   getCollider (removeCollider twoTriggersTicked ''b'') ''b'' = None \<and>
   events (removeCollider twoTriggersTicked ''b'') = events twoTriggersTicked \<and>
   getCollider (run (removeCollider twoTriggersTicked ''b'') []) ''b'' = None \<and>
   fst (update (run (removeCollider twoTriggersTicked ''b'') [])) = None \<and>
   snd ` set (colliders (run (removeCollider twoTriggersTicked ''b'') [])) = {0} \<and>
   ''b'' \<notin> set (activeCollisions
              (heap (snd (update (run (removeCollider twoTriggersTicked ''b'') []))) 0)) \<and>
   events (snd (update (run (removeCollider twoTriggersTicked ''b'') []))) = events twoTriggersTicked \<and>
   events (run (removeCollider twoTriggersTicked ''b'') [Tick]) = events twoTriggersTicked"
proof -
  have ok: "registryOk twoTriggersTicked"
    by (simp add: registryOk_def trigger_defs)
  have reg: "map_of (colliders twoTriggersTicked) ''b'' = Some 1"
    by (simp add: trigger_defs)
  have r0: "run (removeCollider twoTriggersTicked ''b'') [] = removeCollider twoTriggersTicked ''b''"
    by (simp add: run_def)
  have rest: "snd ` set (colliders (removeCollider twoTriggersTicked ''b'')) = {0}"
    by (simp add: trigger_defs removeCollider_def)
  have ev0: "events (snd (update (removeCollider twoTriggersTicked ''b''))) = events twoTriggersTicked"
    by (simp add: twoTriggers_removed_tick) (simp add: trigger_defs removeCollider_def)
  have ev: "events (run (removeCollider twoTriggersTicked ''b'') [Tick]) = events twoTriggersTicked"
    using ev0 by (simp add: run_def)
  show ?thesis
    using ok reg rest ev ev0 twoTriggers_removed_tick
      C3_removal [OF ok reg, of "[]" "[Tick]"]
    by (simp add: r0)
qed

text \<open>
  When another collider is registered under the id before the next tick, the tick takes
  it for the partner. In \<open>twoTriggersTicked\<close>, \<open>b\<close> is removed and the third sphere,
  which has the id \<open>b\<close> too and overlaps \<open>a\<close>, is registered: the tick completes,
  \<open>a\<close> keeps \<open>b\<close> in its active set, and both get \<open>onCollisionStay\<close>; the
  newcomer has not entered and holds no id.
\<close>

lemma twoTriggers_reregistered_tick:
  "fst (addCollider (removeCollider twoTriggersTicked ''b'') 2)
     = (removeCollider twoTriggersTicked ''b'')\<lparr>colliders := [(''a'', 0), (''b'', 2)]\<rparr> \<and>
   fst (update (fst (addCollider (removeCollider twoTriggersTicked ''b'') 2))) = None \<and>
   events (snd (update (fst (addCollider (removeCollider twoTriggersTicked ''b'') 2))))
     = [CollisionEnter 0 1 pushLeft, CollisionEnter 1 0 pushRight,
        CollisionStay 0 2 pushLeft, CollisionStay 2 0 pushRight] \<and>
   activeCollisions (heap (snd (update (fst (addCollider (removeCollider twoTriggersTicked ''b'') 2)))) 0)
     = [''b''] \<and>
   activeCollisions (heap (snd (update (fst (addCollider (removeCollider twoTriggersTicked ''b'') 2)))) 2)
     = []"
  by (simp add: trigger_defs removeCollider_def dispose_def addCollider_def system_defs
      vec_defs shape_defs)
section \<open>The lifecycle of a pair whose key is its own\<close>

subsection \<open>What each step of a tick leaves of a collider\<close>

lemma refreshPosition_proj:
  "idC (heap (refreshPosition w r) p) = idC (heap w p)"
  "activeCollisions (heap (refreshPosition w r) p) = activeCollisions (heap w p)"
  "onCollisionEnter (heap (refreshPosition w r) p) = onCollisionEnter (heap w p)"
  "onCollisionStay (heap (refreshPosition w r) p) = onCollisionStay (heap w p)"
  "onCollisionExit (heap (refreshPosition w r) p) = onCollisionExit (heap w p)"
  "events (refreshPosition w r) = events w"
  "colliders (refreshPosition w r) = colliders w"
  by (simp_all add: refreshPosition_def)

lemma checkCollision_proj:
  "idC (heap (snd (checkCollision w x y)) p) = idC (heap w p)"
  "activeCollisions (heap (snd (checkCollision w x y)) p) = activeCollisions (heap w p)"
  "onCollisionEnter (heap (snd (checkCollision w x y)) p) = onCollisionEnter (heap w p)"
  "onCollisionStay (heap (snd (checkCollision w x y)) p) = onCollisionStay (heap w p)"
  "onCollisionExit (heap (snd (checkCollision w x y)) p) = onCollisionExit (heap w p)"
  "events (snd (checkCollision w x y)) = events w"
  "colliders (snd (checkCollision w x y)) = colliders w"
  by (simp_all add: checkCollision_def Let_def refreshPosition_proj)

lemma getCollisionResponse_proj:
  "idC (heap (snd (getCollisionResponse w x y)) p) = idC (heap w p)"
  "activeCollisions (heap (snd (getCollisionResponse w x y)) p) = activeCollisions (heap w p)"
  "onCollisionEnter (heap (snd (getCollisionResponse w x y)) p) = onCollisionEnter (heap w p)"
  "onCollisionStay (heap (snd (getCollisionResponse w x y)) p) = onCollisionStay (heap w p)"
  "onCollisionExit (heap (snd (getCollisionResponse w x y)) p) = onCollisionExit (heap w p)"
  "events (snd (getCollisionResponse w x y)) = events w"
  "colliders (snd (getCollisionResponse w x y)) = colliders w"
  by (simp_all add: getCollisionResponse_def Let_def refreshPosition_proj)

lemma activeAdd_proj:
  "idC (heap (activeAdd w r k) p) = idC (heap w p)"
  "activeCollisions (heap (activeAdd w r k) p)
     = (if p = r then setAdd k (activeCollisions (heap w r)) else activeCollisions (heap w p))"
  "onCollisionEnter (heap (activeAdd w r k) p) = onCollisionEnter (heap w p)"
  "onCollisionStay (heap (activeAdd w r k) p) = onCollisionStay (heap w p)"
  "onCollisionExit (heap (activeAdd w r k) p) = onCollisionExit (heap w p)"
  "events (activeAdd w r k) = events w"
  "colliders (activeAdd w r k) = colliders w"
  by (simp_all add: activeAdd_def)

lemma emit_proj:
  "heap (emit w f e) = heap w"
  "events (emit w f e) = (if f then events w @ [e] else events w)"
  "colliders (emit w f e) = colliders w"
  by (simp_all add: emit_def)

lemma resolveCollision_proj:
  "heap (resolveCollision w x y response) = heap w"
  "events (resolveCollision w x y response) = events w"
  "colliders (resolveCollision w x y response) = colliders w"
  by (simp_all add: resolveCollision_def positionAdd_def positionSub_def Let_def
      split: option.splits)

lemmas step_proj = refreshPosition_proj checkCollision_proj getCollisionResponse_proj
  activeAdd_proj emit_proj resolveCollision_proj

lemma pairKey_commute: "pairKey x y = pairKey y x"
  by (auto simp add: pairKey_def)

lemma pairEvents_append: "pairEvents a b (xs @ ys) = pairEvents a b xs @ pairEvents a b ys"
  by (simp add: pairEvents_def)

lemma pairEvents_commute: "pairEvents a b evs = pairEvents b a evs"
  by (simp add: pairEvents_def insert_commute)

lemma sameStatic_refl: "sameStatic w w"
  by (simp add: sameStatic_def)

lemma sameStatic_trans: "sameStatic w w' \<Longrightarrow> sameStatic w' w'' \<Longrightarrow> sameStatic w w''"
  by (simp add: sameStatic_def)

lemma pairStep_sameStatic: "sameStatic w (fst (snd (pairStep x y (w, cur))))"
  by (simp add: sameStatic_def pairStep_def split_beta Let_def step_proj split: sum.splits)

lemma distinct_setAdd: "distinct ks \<Longrightarrow> distinct (setAdd k ks)"
  by (simp add: setAdd_def)

lemma pairStep_setsOk: "setsOk w \<Longrightarrow> setsOk (fst (snd (pairStep x y (w, cur))))"
  by (simp add: setsOk_def pairStep_def split_beta Let_def step_proj distinct_setAdd
      split: sum.splits)


text \<open>What one pair step can change.\<close>

lemma pairStep_events:
  "\<exists>new. events (fst (snd (pairStep x y (w, cur)))) = events w @ new \<and>
     (\<forall>e \<in> set new. eventRefs e = {x, y})"
  by (simp add: pairStep_def split_beta Let_def step_proj insert_commute split: sum.splits)

lemma pairStep_active:
  "set (activeCollisions (heap w p)) \<subseteq> set (activeCollisions (heap (fst (snd (pairStep x y (w, cur)))) p))"
  "set (activeCollisions (heap (fst (snd (pairStep x y (w, cur)))) p))
     \<subseteq> set (activeCollisions (heap w p)) \<union> (if p = x then {idC (heap w y)} else {})
        \<union> (if p = y then {idC (heap w x)} else {})"
  by (auto simp add: pairStep_def split_beta Let_def step_proj setAdd_def split: sum.splits)

lemma pairStep_cur:
  "snd (snd (pairStep x y (w, cur))) = cur \<or>
   snd (snd (pairStep x y (w, cur))) = insert (pairKey (idC (heap w x)) (idC (heap w y))) cur"
  by (simp add: pairStep_def split_beta Let_def step_proj split: sum.splits)


text \<open>A step for another pair is not seen by the pair \<open>a\<close>, \<open>b\<close>.\<close>

lemma pairStep_other_view:
  assumes xy: "{x, y} \<noteq> {a, b}"
    and inj: "inj_on (\<lambda>r. idC (heap w r)) {x, y, a, b}"
    and key: "pairKey (idC (heap w x)) (idC (heap w y)) \<noteq> pairKey (idC (heap w a)) (idC (heap w b))"
  shows "pairView a b (snd (pairStep x y (w, cur))) = pairView a b (w, cur)"
proof -
  let ?w = "fst (snd (pairStep x y (w, cur)))"
  let ?cur = "snd (snd (pairStep x y (w, cur)))"
  have static: "sameStatic w ?w"
    by (rule pairStep_sameStatic)
  hence ids: "\<And>p. idC (heap ?w p) = idC (heap w p)"
    by (simp add: sameStatic_def)
  have differ: "x = a \<Longrightarrow> idC (heap w y) \<noteq> idC (heap w b)"
    "y = a \<Longrightarrow> idC (heap w x) \<noteq> idC (heap w b)"
    "x = b \<Longrightarrow> idC (heap w y) \<noteq> idC (heap w a)"
    "y = b \<Longrightarrow> idC (heap w x) \<noteq> idC (heap w a)"
    using xy inj by (auto simp add: inj_on_def)
  have ab: "holds ?w a b = holds w a b"
    using pairStep_active [where w = w and p = a and x = x and y = y and cur = cur] differ(1,2)
    by (auto simp add: holds_def ids split: if_splits)
  have ba: "holds ?w b a = holds w b a"
    using pairStep_active [where w = w and p = b and x = x and y = y and cur = cur] differ(3,4)
    by (auto simp add: holds_def ids split: if_splits)
  obtain new where new: "events ?w = events w @ new" "\<forall>e \<in> set new. eventRefs e = {x, y}"
    using pairStep_events [where w = w and x = x and y = y and cur = cur] by blast
  have "filter (\<lambda>e. eventRefs e = {a, b}) new = []"
    using new(2) xy by (auto simp add: filter_empty_conv)
  hence evs: "pairEvents a b (events ?w) = pairEvents a b (events w)"
    by (simp add: new(1) pairEvents_def)
  have cur: "(pairKey (idC (heap w a)) (idC (heap w b)) \<in> ?cur)
      = (pairKey (idC (heap w a)) (idC (heap w b)) \<in> cur)"
    using pairStep_cur [where w = w and x = x and y = y and cur = cur] key by auto
  show ?thesis
    by (simp add: pairView_def ab ba evs cur ids)
qed

text \<open>The step of the pair itself, when both colliders have their handlers.\<close>

lemma pairStep_own_view:
  assumes ab: "a \<noteq> b"
    and sym: "holds w a b = holds w b a"
    and ha: "handlersInstalled w a" and hb: "handlersInstalled w b"
    and fresh: "pairKey (idC (heap w a)) (idC (heap w b)) \<notin> cur"
    and ok: "fst (pairStep a b (w, cur)) = None"
  shows "pairView a b (snd (pairStep a b (w, cur)))
           = (if fst (checkCollision w a b)
              then (True, True,
                    pairEvents a b (events w) @
                      (if holds w a b then [(OnStay, a, b), (OnStay, b, a)]
                       else [(OnEnter, a, b), (OnEnter, b, a)]),
                    True)
              else (holds w a b, holds w b a, pairEvents a b (events w), False))"
  using assms
  by (auto simp add: pairView_def holds_def handlersInstalled_def pairEvents_def pairStep_def
      split_beta Let_def step_proj setAdd_def insert_commute split: sum.splits)

subsection \<open>The pairs of the loop\<close>

lemma pairsOf_refs: "(x, y) \<in> set (pairsOf arr) \<Longrightarrow> x \<in> set arr \<and> y \<in> set arr"
  by (induction arr) auto

lemma pairsOf_differ: "distinct arr \<Longrightarrow> (x, y) \<in> set (pairsOf arr) \<Longrightarrow> x \<noteq> y"
  by (induction arr) (auto dest: pairsOf_refs)

lemma pairsOf_one_order:
  "distinct arr \<Longrightarrow> (x, y) \<in> set (pairsOf arr) \<Longrightarrow> (y, x) \<notin> set (pairsOf arr)"
  by (induction arr) (auto dest: pairsOf_refs)

lemma pairsOf_distinct: "distinct arr \<Longrightarrow> distinct (pairsOf arr)"
  by (induction arr) (auto simp add: distinct_map inj_on_def dest: pairsOf_refs)

lemma pairsOf_split:
  "(a, b) \<in> set (pairsOf arr) \<Longrightarrow> \<exists>pre mid post. arr = pre @ a # mid @ b # post"
proof (induction arr)
  case Nil
  then show ?case by simp
next
  case (Cons c rest)
  show ?case
  proof (cases "(a, b) \<in> set (pairsOf rest)")
    case True
    then obtain pre mid post where "rest = pre @ a # mid @ b # post"
      using Cons.IH by blast
    then have "c # rest = (c # pre) @ a # mid @ b # post" by simp
    then show ?thesis by blast
  next
    case False
    then have "a = c" "b \<in> set rest" using Cons.prems by auto
    then obtain mid post where "rest = mid @ b # post"
      by (auto dest: split_list)
    then have "c # rest = [] @ a # mid @ b # post" using \<open>a = c\<close> by simp
    then show ?thesis by blast
  qed
qed

lemma pairsOf_around:
  assumes "distinct arr" and "(a, b) \<in> set (pairsOf arr)"
  shows "pairsOf arr = takeWhile (\<lambda>p. p \<noteq> (a, b)) (pairsOf arr) @ (a, b) #
           tl (dropWhile (\<lambda>p. p \<noteq> (a, b)) (pairsOf arr))"
    and "(a, b) \<notin> set (takeWhile (\<lambda>p. p \<noteq> (a, b)) (pairsOf arr))"
    and "(a, b) \<notin> set (tl (dropWhile (\<lambda>p. p \<noteq> (a, b)) (pairsOf arr)))"
proof -
  let ?ps = "pairsOf arr"
  let ?P = "\<lambda>p. p \<noteq> (a, b)"
  have ne: "dropWhile ?P ?ps \<noteq> []"
    using assms(2) by (simp add: dropWhile_eq_Nil_conv)
  have hd: "hd (dropWhile ?P ?ps) = (a, b)"
    using hd_dropWhile [OF ne] by simp
  have dw: "dropWhile ?P ?ps = (a, b) # tl (dropWhile ?P ?ps)"
    using ne hd by (metis list.collapse)
  show split: "?ps = takeWhile ?P ?ps @ (a, b) # tl (dropWhile ?P ?ps)"
    using takeWhile_dropWhile_id [of ?P ?ps] dw by metis
  show "(a, b) \<notin> set (takeWhile ?P ?ps)"
    by (auto dest: set_takeWhileD)
  have "distinct ?ps" using assms(1) by (rule pairsOf_distinct)
  then have "distinct (takeWhile ?P ?ps @ (a, b) # tl (dropWhile ?P ?ps))"
    using split by metis
  then show "(a, b) \<notin> set (tl (dropWhile ?P ?ps))" by simp
qed

subsection \<open>The two loops are one sweep over the pairs\<close>

lemma innerLoop_sweep: "innerLoop a bs s = sweep (map (Pair a) bs) s"
  by (induction bs arbitrary: s) (auto split: prod.splits option.splits)

lemma sweep_append:
  "sweep (ps @ qs) s =
     (case sweep ps s of (Some e, s') \<Rightarrow> (Some e, s') | (None, s') \<Rightarrow> sweep qs s')"
  by (induction ps arbitrary: s) (auto split: prod.splits option.splits)

lemma outerLoop_sweep: "outerLoop arr s = sweep (pairsOf arr) s"
  by (induction arr arbitrary: s)
    (auto simp add: innerLoop_sweep sweep_append split: prod.splits option.splits)

lemma sweep_sameStatic: "sameStatic w (fst (snd (sweep ps (w, cur))))"
proof (induction ps arbitrary: w cur)
  case Nil
  then show ?case by (simp add: sameStatic_refl)
next
  case (Cons p ps)
  obtain e w' cur' where st: "pairStep (fst p) (snd p) (w, cur) = (e, w', cur')"
    by (cases "pairStep (fst p) (snd p) (w, cur)")
  have one: "sameStatic w w'"
    using pairStep_sameStatic [of w "fst p" "snd p" cur] st by simp
  show ?case
  proof (cases e)
    case None
    then show ?thesis
      using st one Cons.IH [of w' cur'] by (simp add: sameStatic_trans [OF one])
  next
    case (Some err)
    then show ?thesis using st one by simp
  qed
qed

lemma sweep_setsOk: "setsOk w \<Longrightarrow> setsOk (fst (snd (sweep ps (w, cur))))"
proof (induction ps arbitrary: w cur)
  case Nil
  then show ?case by simp
next
  case (Cons p ps)
  obtain e w' cur' where st: "pairStep (fst p) (snd p) (w, cur) = (e, w', cur')"
    by (cases "pairStep (fst p) (snd p) (w, cur)")
  have one: "setsOk w'"
    using pairStep_setsOk [OF Cons.prems, of "fst p" "snd p" cur] st by simp
  show ?case
    using st one Cons.IH [of w' cur'] by (cases e) simp_all
qed

text \<open>
  A sweep over pairs other than \<open>a\<close>, \<open>b\<close>, none of which has the key of \<open>a\<close>, \<open>b\<close>, is
  not seen by the pair.
\<close>

lemma sweep_others_view:
  assumes "\<forall>p \<in> set ps. {fst p, snd p} \<noteq> {a, b} \<and> fst p \<in> R \<and> snd p \<in> R \<and>
             pairKey (idC (heap w (fst p))) (idC (heap w (snd p)))
               \<noteq> pairKey (idC (heap w a)) (idC (heap w b))"
    and "a \<in> R" and "b \<in> R" and "inj_on (\<lambda>r. idC (heap w r)) R"
  shows "pairView a b (snd (sweep ps (w, cur))) = pairView a b (w, cur)"
  using assms
proof (induction ps arbitrary: w cur)
  case Nil
  then show ?case by simp
next
  case (Cons p ps)
  obtain e w' cur' where st: "pairStep (fst p) (snd p) (w, cur) = (e, w', cur')"
    by (cases "pairStep (fst p) (snd p) (w, cur)")
  have static: "sameStatic w w'"
    using pairStep_sameStatic [of w "fst p" "snd p" cur] st by simp
  then have ids: "(\<lambda>r. idC (heap w' r)) = (\<lambda>r. idC (heap w r))"
    by (simp add: sameStatic_def)
  have "{fst p, snd p, a, b} \<subseteq> R"
    using Cons.prems by simp
  then have "inj_on (\<lambda>r. idC (heap w r)) {fst p, snd p, a, b}"
    using Cons.prems(4) by (rule inj_on_subset [rotated])
  then have one: "pairView a b (w', cur') = pairView a b (w, cur)"
    using pairStep_other_view [of "fst p" "snd p" a b w cur] Cons.prems(1) st by simp
  show ?case
  proof (cases e)
    case None
    have "pairView a b (snd (sweep ps (w', cur'))) = pairView a b (w', cur')"
    proof (rule Cons.IH)
      show "\<forall>p \<in> set ps. {fst p, snd p} \<noteq> {a, b} \<and> fst p \<in> R \<and> snd p \<in> R \<and>
             pairKey (idC (heap w' (fst p))) (idC (heap w' (snd p)))
               \<noteq> pairKey (idC (heap w' a)) (idC (heap w' b))"
        using Cons.prems(1) static by (simp add: sameStatic_def)
      show "inj_on (\<lambda>r. idC (heap w' r)) R"
        using Cons.prems(4) ids by simp
    qed (use Cons.prems in simp_all)
    then show ?thesis using st None one by simp
  next
    case (Some err)
    then show ?thesis using st one by simp
  qed
qed

subsection \<open>The exit pass, seen by a pair\<close>

lemma exitScan_receiver:
  "\<forall>e \<in> set (snd (exitScan w cur r ks)). \<exists>other. e = CollisionExit r other"
proof (induction ks)
  case Nil
  then show ?case by simp
next
  case (Cons k ks)
  obtain rm evs where s: "exitScan w cur r ks = (rm, evs)"
    by (cases "exitScan w cur r ks")
  show ?case
    using Cons.IH s by (auto split: option.splits)
qed

lemma exitStep_sameStatic: "sameStatic w (exitStep cur w r)"
  by (simp add: sameStatic_def exitStep_def split_beta)

lemma exitStep_setsOk: "setsOk w \<Longrightarrow> setsOk (exitStep cur w r)"
  by (simp add: setsOk_def exitStep_def split_beta)

lemma exitStep_other_view:
  assumes "r \<noteq> a" and "r \<noteq> b"
  shows "holds (exitStep cur w r) a b = holds w a b"
    and "holds (exitStep cur w r) b a = holds w b a"
    and "pairEvents a b (events (exitStep cur w r)) = pairEvents a b (events w)"
proof -
  show "holds (exitStep cur w r) a b = holds w a b" "holds (exitStep cur w r) b a = holds w b a"
    using assms by (simp_all add: holds_def exitStep_def split_beta)
  have "\<forall>e \<in> set (snd (exitScan w cur r (activeCollisions (heap w r)))). eventRefs e \<noteq> {a, b}"
    using exitScan_receiver [of w cur r "activeCollisions (heap w r)"] assms
    by (auto simp add: doubleton_eq_iff)
  then have "filter (\<lambda>e. eventRefs e = {a, b})
      (snd (exitScan w cur r (activeCollisions (heap w r)))) = []"
    by (simp add: filter_empty_conv)
  then show "pairEvents a b (events (exitStep cur w r)) = pairEvents a b (events w)"
    by (simp add: pairEvents_def exitStep_def split_beta)
qed

text \<open>
  The scan of the active set of \<open>r\<close>, for a registered partner \<open>other\<close>: the partner is
  left, with one \<open>onCollisionExit\<close>, exactly if its id is in the set and the key of the
  pair is not in \<open>currentCollisions\<close>.
\<close>

lemma exitScan_partner:
  assumes ne: "r \<noteq> other"
    and reg: "map_of (colliders w) (idC (heap w other)) = Some other"
    and one: "\<forall>k. map_of (colliders w) k = Some other \<longrightarrow> k = idC (heap w other)"
    and handler: "onCollisionExit (heap w r)"
  shows "distinct ks \<Longrightarrow>
         pairEvents r other (snd (exitScan w cur r ks))
           = (if idC (heap w other) \<in> set ks \<and>
                 pairKey (idC (heap w r)) (idC (heap w other)) \<notin> cur
              then [(OnExit, r, other)] else []) \<and>
         (idC (heap w other) \<in> set (fst (exitScan w cur r ks))
            \<longleftrightarrow> idC (heap w other) \<in> set ks \<and>
                pairKey (idC (heap w r)) (idC (heap w other)) \<notin> cur)"
proof (induction ks)
  case Nil
  then show ?case by (simp add: pairEvents_def)
next
  case (Cons k ks)
  obtain rm evs where s: "exitScan w cur r ks = (rm, evs)"
    by (cases "exitScan w cur r ks")
  have ih: "pairEvents r other evs
              = (if idC (heap w other) \<in> set ks \<and>
                    pairKey (idC (heap w r)) (idC (heap w other)) \<notin> cur
                 then [(OnExit, r, other)] else [])"
    "idC (heap w other) \<in> set rm
       \<longleftrightarrow> idC (heap w other) \<in> set ks \<and>
           pairKey (idC (heap w r)) (idC (heap w other)) \<notin> cur"
    using Cons s by simp_all
  show ?case
  proof (cases "k = idC (heap w other)")
    case True
    then have "idC (heap w other) \<notin> set ks" using Cons.prems by simp
    then show ?thesis
      using True reg handler ih s by (simp add: pairEvents_def)
  next
    case False
    have "map_of (colliders w) k \<noteq> Some other"
      using one False by blast
    then have "\<And>x. map_of (colliders w) k = Some x \<Longrightarrow> {r, x} \<noteq> {r, other}"
      using ne by (auto simp add: doubleton_eq_iff)
    then show ?thesis
      using False ih s by (auto simp add: pairEvents_def split: option.splits)
  qed
qed

lemma exitStep_self_view:
  assumes ne: "r \<noteq> other"
    and reg: "map_of (colliders w) (idC (heap w other)) = Some other"
    and one: "\<forall>k. map_of (colliders w) k = Some other \<longrightarrow> k = idC (heap w other)"
    and handler: "onCollisionExit (heap w r)"
    and sets: "setsOk w"
  shows "pairEvents r other (events (exitStep cur w r))
           = pairEvents r other (events w) @
             (if holds w r other \<and> pairKey (idC (heap w r)) (idC (heap w other)) \<notin> cur
              then [(OnExit, r, other)] else [])"
    and "holds (exitStep cur w r) r other
           \<longleftrightarrow> holds w r other \<and> pairKey (idC (heap w r)) (idC (heap w other)) \<in> cur"
    and "holds (exitStep cur w r) other r \<longleftrightarrow> holds w other r"
proof -
  have d: "distinct (activeCollisions (heap w r))"
    using sets by (simp add: setsOk_def)
  note scan = exitScan_partner [OF ne reg one handler d, of cur]
  show "pairEvents r other (events (exitStep cur w r))
           = pairEvents r other (events w) @
             (if holds w r other \<and> pairKey (idC (heap w r)) (idC (heap w other)) \<notin> cur
              then [(OnExit, r, other)] else [])"
    using scan by (simp add: exitStep_def split_beta pairEvents_append holds_def)
  show "holds (exitStep cur w r) r other
           \<longleftrightarrow> holds w r other \<and> pairKey (idC (heap w r)) (idC (heap w other)) \<in> cur"
    using scan ne by (auto simp add: exitStep_def split_beta holds_def)
  show "holds (exitStep cur w r) other r \<longleftrightarrow> holds w other r"
    using ne by (simp add: exitStep_def split_beta holds_def)
qed

lemma exitPass_sameStatic: "sameStatic w (foldl (exitStep cur) w arr)"
proof (induction arr arbitrary: w)
  case Nil
  then show ?case by (simp add: sameStatic_refl)
next
  case (Cons r arr)
  show ?case
    using Cons.IH [of "exitStep cur w r"] exitStep_sameStatic [of w cur r]
    by (simp add: sameStatic_trans)
qed

lemma exitPass_setsOk: "setsOk w \<Longrightarrow> setsOk (foldl (exitStep cur) w arr)"
  by (induction arr arbitrary: w) (simp_all add: exitStep_setsOk)

lemma exitPass_others_view:
  assumes "a \<notin> set arr" and "b \<notin> set arr"
  shows "holds (foldl (exitStep cur) w arr) a b = holds w a b \<and>
         holds (foldl (exitStep cur) w arr) b a = holds w b a \<and>
         pairEvents a b (events (foldl (exitStep cur) w arr)) = pairEvents a b (events w)"
  using assms
proof (induction arr arbitrary: w)
  case Nil
  then show ?case by simp
next
  case (Cons r arr)
  have "r \<noteq> a" "r \<noteq> b" using Cons.prems by auto
  note one = exitStep_other_view [OF this, of cur w]
  show ?case
    using Cons.IH [of "exitStep cur w r"] Cons.prems one by simp
qed

lemma registryOk_lookup:
  assumes "registryOk w" and "r \<in> snd ` set (colliders w)"
  shows "map_of (colliders w) (idC (heap w r)) = Some r"
    and "\<forall>k. map_of (colliders w) k = Some r \<longrightarrow> k = idC (heap w r)"
proof -
  from assms(2) obtain k where k: "(k, r) \<in> set (colliders w)" by auto
  then have "idC (heap w r) = k"
    using assms(1) by (auto simp add: registryOk_def list_all_iff)
  then show "map_of (colliders w) (idC (heap w r)) = Some r"
    using k assms(1) by (simp add: registryOk_def)
  show "\<forall>k. map_of (colliders w) k = Some r \<longrightarrow> k = idC (heap w r)"
  proof (intro allI impI)
    fix k' assume "map_of (colliders w) k' = Some r"
    then have "(k', r) \<in> set (colliders w)" by (rule map_of_SomeD)
    then show "k' = idC (heap w r)"
      using assms(1) by (auto simp add: registryOk_def list_all_iff)
  qed
qed

lemma sameStatic_lookup:
  assumes "sameStatic w w'"
    and "map_of (colliders w) (idC (heap w r)) = Some r"
    and "\<forall>k. map_of (colliders w) k = Some r \<longrightarrow> k = idC (heap w r)"
  shows "map_of (colliders w') (idC (heap w' r)) = Some r"
    and "\<forall>k. map_of (colliders w') k = Some r \<longrightarrow> k = idC (heap w' r)"
proof -
  have eq: "colliders w' = colliders w" "idC (heap w' r) = idC (heap w r)"
    using assms(1) by (simp_all add: sameStatic_def)
  show "map_of (colliders w') (idC (heap w' r)) = Some r"
    unfolding eq by (rule assms(2))
  show "\<forall>k. map_of (colliders w') k = Some r \<longrightarrow> k = idC (heap w' r)"
    unfolding eq by (rule assms(3))
qed

text \<open>The whole exit pass, for a pair whose first collider is scanned first.\<close>

lemma exitPass_pair_view:
  assumes arr: "distinct (pre @ a # mid @ b # post)"
    and rega: "map_of (colliders w) (idC (heap w a)) = Some a"
      "\<forall>k. map_of (colliders w) k = Some a \<longrightarrow> k = idC (heap w a)"
    and regb: "map_of (colliders w) (idC (heap w b)) = Some b"
      "\<forall>k. map_of (colliders w) k = Some b \<longrightarrow> k = idC (heap w b)"
    and handlers: "onCollisionExit (heap w a)" "onCollisionExit (heap w b)"
    and sets: "setsOk w"
  shows "pairEvents a b (events (foldl (exitStep cur) w (pre @ a # mid @ b # post)))
           = pairEvents a b (events w) @
             (if holds w a b \<and> pairKey (idC (heap w a)) (idC (heap w b)) \<notin> cur
              then [(OnExit, a, b)] else []) @
             (if holds w b a \<and> pairKey (idC (heap w a)) (idC (heap w b)) \<notin> cur
              then [(OnExit, b, a)] else [])"
    and "holds (foldl (exitStep cur) w (pre @ a # mid @ b # post)) a b
           \<longleftrightarrow> holds w a b \<and> pairKey (idC (heap w a)) (idC (heap w b)) \<in> cur"
    and "holds (foldl (exitStep cur) w (pre @ a # mid @ b # post)) b a
           \<longleftrightarrow> holds w b a \<and> pairKey (idC (heap w a)) (idC (heap w b)) \<in> cur"
proof -
  define gone where "gone \<longleftrightarrow> pairKey (idC (heap w a)) (idC (heap w b)) \<notin> cur"
  define w' where "w' = foldl (exitStep cur) w (pre @ a # mid @ b # post)"
  have ne: "a \<noteq> b" and pre: "a \<notin> set pre" "b \<notin> set pre"
    and mid: "a \<notin> set mid" "b \<notin> set mid" and post: "a \<notin> set post" "b \<notin> set post"
    using arr by auto
  define w1 where "w1 = foldl (exitStep cur) w pre"
  define w2 where "w2 = exitStep cur w1 a"
  define w3 where "w3 = foldl (exitStep cur) w2 mid"
  define w4 where "w4 = exitStep cur w3 b"
  have w': "w' = foldl (exitStep cur) w4 post"
    by (simp add: w'_def w1_def w2_def w3_def w4_def)
  have s1: "sameStatic w w1"
    unfolding w1_def by (rule exitPass_sameStatic)
  have s2: "sameStatic w1 w2"
    unfolding w2_def by (rule exitStep_sameStatic)
  have s3: "sameStatic w2 w3"
    unfolding w3_def by (rule exitPass_sameStatic)
  have s13: "sameStatic w w3"
    using s1 s2 s3 by (blast intro: sameStatic_trans)
  have ids1: "idC (heap w1 a) = idC (heap w a)" "idC (heap w1 b) = idC (heap w b)"
    using s1 by (simp_all add: sameStatic_def)
  have ids3: "idC (heap w3 a) = idC (heap w a)" "idC (heap w3 b) = idC (heap w b)"
    using s13 by (simp_all add: sameStatic_def)
  have v1: "holds w1 a b = holds w a b" "holds w1 b a = holds w b a"
    "pairEvents a b (events w1) = pairEvents a b (events w)"
    using exitPass_others_view [OF pre, of cur w] by (simp_all add: w1_def)
  have sets1: "setsOk w1"
    unfolding w1_def using sets by (rule exitPass_setsOk)
  have h1: "onCollisionExit (heap w1 a)"
    using s1 handlers(1) by (simp add: sameStatic_def)
  note a_step = exitStep_self_view [OF ne sameStatic_lookup [OF s1 regb] h1 sets1, of cur]
  have v2: "pairEvents a b (events w2)
              = pairEvents a b (events w) @ (if holds w a b \<and> gone then [(OnExit, a, b)] else [])"
    "holds w2 a b \<longleftrightarrow> holds w a b \<and> \<not> gone" "holds w2 b a = holds w b a"
    using a_step by (simp_all add: w2_def v1 ids1 gone_def)
  have v3: "holds w3 a b = holds w2 a b" "holds w3 b a = holds w2 b a"
    "pairEvents a b (events w3) = pairEvents a b (events w2)"
    using exitPass_others_view [OF mid, of cur w2] by (simp_all add: w3_def)
  have sets3: "setsOk w3"
    unfolding w3_def w2_def using sets1 by (intro exitPass_setsOk exitStep_setsOk)
  have h3: "onCollisionExit (heap w3 b)"
    using s13 handlers(2) by (simp add: sameStatic_def)
  note b_step = exitStep_self_view [OF ne [symmetric] sameStatic_lookup [OF s13 rega] h3 sets3, of cur]
  have key: "pairKey (idC (heap w b)) (idC (heap w a)) = pairKey (idC (heap w a)) (idC (heap w b))"
    by (rule pairKey_commute)
  have v4: "pairEvents a b (events w4)
              = pairEvents a b (events w3) @ (if holds w3 b a \<and> gone then [(OnExit, b, a)] else [])"
    "holds w4 b a \<longleftrightarrow> holds w3 b a \<and> \<not> gone" "holds w4 a b = holds w3 a b"
    using b_step by (simp_all add: w4_def ids3 gone_def key pairEvents_commute [of a b])
  have v5: "holds w' a b = holds w4 a b" "holds w' b a = holds w4 b a"
    "pairEvents a b (events w') = pairEvents a b (events w4)"
    using exitPass_others_view [OF post, of cur w4] by (simp_all add: w')
  have "pairEvents a b (events w')
           = pairEvents a b (events w) @
             (if holds w a b \<and> gone then [(OnExit, a, b)] else []) @
             (if holds w b a \<and> gone then [(OnExit, b, a)] else [])"
    by (simp add: v5 v4 v3 v2)
  then show "pairEvents a b (events (foldl (exitStep cur) w (pre @ a # mid @ b # post)))
           = pairEvents a b (events w) @
             (if holds w a b \<and> pairKey (idC (heap w a)) (idC (heap w b)) \<notin> cur
              then [(OnExit, a, b)] else []) @
             (if holds w b a \<and> pairKey (idC (heap w a)) (idC (heap w b)) \<notin> cur
              then [(OnExit, b, a)] else [])"
    by (simp add: w'_def gone_def)
  have "holds w' a b \<longleftrightarrow> holds w a b \<and> \<not> gone"
    by (simp add: v5 v4 v3 v2)
  then show "holds (foldl (exitStep cur) w (pre @ a # mid @ b # post)) a b
           \<longleftrightarrow> holds w a b \<and> pairKey (idC (heap w a)) (idC (heap w b)) \<in> cur"
    by (simp add: w'_def gone_def)
  have "holds w' b a \<longleftrightarrow> holds w b a \<and> \<not> gone"
    by (simp add: v5 v4 v3 v2)
  then show "holds (foldl (exitStep cur) w (pre @ a # mid @ b # post)) b a
           \<longleftrightarrow> holds w b a \<and> pairKey (idC (heap w a)) (idC (heap w b)) \<in> cur"
    by (simp add: w'_def gone_def)
qed

subsection \<open>The refresh of the positions\<close>

lemma refreshAll_proj:
  "sameStatic w (foldl refreshPosition w arr)"
  "activeCollisions (heap (foldl refreshPosition w arr) p) = activeCollisions (heap w p)"
  "events (foldl refreshPosition w arr) = events w"
proof -
  have "sameStatic w (foldl refreshPosition w arr) \<and>
        (\<forall>p. activeCollisions (heap (foldl refreshPosition w arr) p) = activeCollisions (heap w p)) \<and>
        events (foldl refreshPosition w arr) = events w"
  proof (induction arr arbitrary: w)
    case Nil
    then show ?case by (simp add: sameStatic_refl)
  next
    case (Cons r arr)
    have one: "sameStatic w (refreshPosition w r)"
      by (simp add: sameStatic_def refreshPosition_proj)
    have "sameStatic w (foldl refreshPosition (refreshPosition w r) arr)"
      using Cons.IH [of "refreshPosition w r"] by (simp add: sameStatic_trans [OF one])
    then show ?case
      using Cons.IH [of "refreshPosition w r"]
      by (simp add: refreshPosition_proj)
  qed
  then show "sameStatic w (foldl refreshPosition w arr)"
    "activeCollisions (heap (foldl refreshPosition w arr) p) = activeCollisions (heap w p)"
    "events (foldl refreshPosition w arr) = events w"
    by simp_all
qed

subsection \<open>One tick\<close>

lemma sameStatic_handlers:
  "sameStatic w w' \<Longrightarrow> handlersInstalled w' r = handlersInstalled w r"
  by (simp add: sameStatic_def handlersInstalled_def)

lemma sameStatic_ids: "sameStatic w w' \<Longrightarrow> idC (heap w' p) = idC (heap w p)"
  by (simp add: sameStatic_def)

text \<open>
  One completed tick, for a pair \<open>a\<close>, \<open>b\<close> of registered colliders, \<open>a\<close>
  registered first, that both have their three handlers, whose active-set entries for each
  other agree, and whose key no other pair of the registry has. With \<open>verdict w a b\<close>
  the answer of \<open>checkCollision(a, b)\<close> in this tick: the pair gets
  \<open>onCollisionEnter\<close> on both sides if it overlaps and did not before,
  \<open>onCollisionStay\<close> on both sides if it overlaps and did before,
  \<open>onCollisionExit\<close> on both sides if it overlapped before and does not now, and
  nothing otherwise; afterwards the two entries say whether it overlaps.
\<close>

theorem lifecycle_tick:
  assumes ok: "registryOk w" and sets: "setsOk w"
    and pair: "(a, b) \<in> set (pairsOf (map snd (colliders w)))"
    and key: "keyUnshared w a b"
    and sym: "holds w a b = holds w b a"
    and ha: "handlersInstalled w a" and hb: "handlersInstalled w b"
    and tick: "update w = (None, w')"
  shows "pairEvents a b (events w')
           = pairEvents a b (events w) @
             (if verdict w a b
              then (if holds w a b then [(OnStay, a, b), (OnStay, b, a)]
                    else [(OnEnter, a, b), (OnEnter, b, a)])
              else (if holds w a b then [(OnExit, a, b), (OnExit, b, a)] else []))"
    and "holds w' a b = verdict w a b"
    and "holds w' b a = verdict w a b"
proof -
  define arr where "arr = map snd (colliders w)"
  define w0 where "w0 = foldl refreshPosition w arr"
  define before where "before = takeWhile (\<lambda>p. p \<noteq> (a, b)) (pairsOf arr)"
  define after where "after = tl (dropWhile (\<lambda>p. p \<noteq> (a, b)) (pairsOf arr))"
  define K where "K = pairKey (idC (heap w a)) (idC (heap w b))"
  have d: "distinct arr"
    unfolding arr_def using ok by (rule registryOk_distinct_refs)
  have pair': "(a, b) \<in> set (pairsOf arr)"
    using pair by (simp add: arr_def)
  have split: "pairsOf arr = before @ (a, b) # after"
    and nb: "(a, b) \<notin> set before" and na: "(a, b) \<notin> set after"
    using pairsOf_around [OF d pair'] by (simp_all add: before_def after_def)
  have ne: "a \<noteq> b" using pairsOf_differ [OF d pair'] .
  have mem: "a \<in> set arr" "b \<in> set arr"
    using pairsOf_refs [OF pair'] by simp_all
  have regset: "set arr = snd ` set (colliders w)"
    by (simp add: arr_def)
  have inj: "inj_on (\<lambda>r. idC (heap w r)) (set arr)"
    using registryOk_ids_differ [OF ok] unfolding regset inj_on_def by blast
  have others: "{fst p, snd p} \<noteq> {a, b} \<and> fst p \<in> set arr \<and> snd p \<in> set arr \<and>
      pairKey (idC (heap w (fst p))) (idC (heap w (snd p))) \<noteq> K"
    if p: "p \<in> set before \<union> set after" for p
  proof -
    have in_ps: "p \<in> set (pairsOf arr)" and nab: "p \<noteq> (a, b)"
      using p split nb na by auto
    have "(b, a) \<notin> set (pairsOf arr)"
      using pairsOf_one_order [OF d pair'] .
    then have "p \<noteq> (b, a)" using in_ps by auto
    then have refs: "{fst p, snd p} \<noteq> {a, b}"
      using nab by (cases p) (auto simp add: doubleton_eq_iff)
    have "(fst p, snd p) \<in> set (pairsOf arr)" using in_ps by simp
    then have m: "fst p \<in> set arr \<and> snd p \<in> set arr" by (rule pairsOf_refs)
    have "pairKey (idC (heap w (fst p))) (idC (heap w (snd p))) \<noteq> K"
      using key in_ps nab by (auto simp add: keyUnshared_def list_all_iff arr_def K_def)
    then show ?thesis using refs m by simp
  qed
  \<comment> \<open>the tick, step by step\<close>
  obtain e1 w1 cur where loop: "outerLoop arr (w0, {}) = (e1, w1, cur)"
    by (rule outerLoop_cases)
  have e1: "e1 = None" and w': "w' = foldl (exitStep cur) w1 arr"
    using tick loop by (auto simp add: update_def arr_def [symmetric] w0_def [symmetric]
        split: option.splits)
  obtain eB wB curB where sB: "sweep before (w0, {}) = (eB, wB, curB)"
    by (cases "sweep before (w0, {})")
  obtain eP wP curP where sP: "pairStep a b (wB, curB) = (eP, wP, curP)"
    by (cases "pairStep a b (wB, curB)")
  have whole: "sweep (before @ (a, b) # after) (w0, {}) = (None, w1, cur)"
    using loop e1 by (simp add: outerLoop_sweep split)
  have eB: "eB = None"
    using whole sB by (cases eB) (simp_all add: sweep_append)
  have eP: "eP = None"
    using whole sB sP eB by (cases eP) (simp_all add: sweep_append)
  have sA: "sweep after (wP, curP) = (None, w1, cur)"
    using whole sB sP eB eP by (simp add: sweep_append)
  \<comment> \<open>what stays\<close>
  have st0: "sameStatic w w0"
    unfolding w0_def by (rule refreshAll_proj)
  have stB: "sameStatic w0 wB"
    using sweep_sameStatic [of w0 before "{}"] sB by simp
  have stP: "sameStatic wB wP"
    using pairStep_sameStatic [of wB a b curB] sP by simp
  have st1: "sameStatic wP w1"
    using sweep_sameStatic [of wP after curP] sA by simp
  have stwB: "sameStatic w wB" using st0 stB by (rule sameStatic_trans)
  have stwP: "sameStatic w wP" using stwB stP by (rule sameStatic_trans)
  have stw1: "sameStatic w w1" using stwP st1 by (rule sameStatic_trans)
  have sets0: "setsOk w0"
    using sets by (simp add: setsOk_def w0_def refreshAll_proj)
  have setsB: "setsOk wB"
    using sweep_setsOk [OF sets0, of before "{}"] sB by simp
  have setsP: "setsOk wP"
    using pairStep_setsOk [OF setsB, of a b curB] sP by simp
  have sets1: "setsOk w1"
    using sweep_setsOk [OF setsP, of after curP] sA by simp
  \<comment> \<open>the view of the pair\<close>
  have view0: "pairView a b (w0, {}) = (holds w a b, holds w b a, pairEvents a b (events w), False)"
    by (simp add: pairView_def holds_def w0_def refreshAll_proj
        sameStatic_ids [OF refreshAll_proj(1)])
  have viewB: "pairView a b (wB, curB) = pairView a b (w0, {})"
  proof -
    have "pairView a b (snd (sweep before (w0, {}))) = pairView a b (w0, {})"
    proof (rule sweep_others_view [where R = "set arr"])
      show "\<forall>p \<in> set before. {fst p, snd p} \<noteq> {a, b} \<and> fst p \<in> set arr \<and> snd p \<in> set arr \<and>
             pairKey (idC (heap w0 (fst p))) (idC (heap w0 (snd p)))
               \<noteq> pairKey (idC (heap w0 a)) (idC (heap w0 b))"
        using others by (simp add: sameStatic_ids [OF st0] K_def)
      show "inj_on (\<lambda>r. idC (heap w0 r)) (set arr)"
        using inj by (simp add: sameStatic_ids [OF st0])
    qed (rule mem)+
    then show ?thesis using sB by simp
  qed
  have hB: "holds wB a b = holds w a b" "holds wB b a = holds w b a"
    "pairEvents a b (events wB) = pairEvents a b (events w)"
    "pairKey (idC (heap wB a)) (idC (heap wB b)) \<notin> curB"
    using viewB view0 by (simp_all add: pairView_def)
  have hit: "fst (checkCollision wB a b) = verdict w a b"
    using sB by (simp add: verdict_def Let_def arr_def [symmetric] w0_def [symmetric]
        before_def [symmetric])
  have viewP: "pairView a b (wP, curP)
      = (if verdict w a b
         then (True, True,
               pairEvents a b (events w) @
                 (if holds w a b then [(OnStay, a, b), (OnStay, b, a)]
                  else [(OnEnter, a, b), (OnEnter, b, a)]),
               True)
         else (holds w a b, holds w b a, pairEvents a b (events w), False))"
  proof -
    have "pairView a b (snd (pairStep a b (wB, curB)))
           = (if fst (checkCollision wB a b)
              then (True, True,
                    pairEvents a b (events wB) @
                      (if holds wB a b then [(OnStay, a, b), (OnStay, b, a)]
                       else [(OnEnter, a, b), (OnEnter, b, a)]),
                    True)
              else (holds wB a b, holds wB b a, pairEvents a b (events wB), False))"
    proof (rule pairStep_own_view [OF ne])
      show "holds wB a b = holds wB b a" using sym hB by simp
      show "handlersInstalled wB a" using ha sameStatic_handlers [OF stwB] by simp
      show "handlersInstalled wB b" using hb sameStatic_handlers [OF stwB] by simp
      show "pairKey (idC (heap wB a)) (idC (heap wB b)) \<notin> curB" by (rule hB)
      show "fst (pairStep a b (wB, curB)) = None" using sP eP by simp
    qed
    then show ?thesis
      unfolding hit hB(1-3) using sP by simp
  qed
  have view1: "pairView a b (w1, cur) = pairView a b (wP, curP)"
  proof -
    have "pairView a b (snd (sweep after (wP, curP))) = pairView a b (wP, curP)"
    proof (rule sweep_others_view [where R = "set arr"])
      show "\<forall>p \<in> set after. {fst p, snd p} \<noteq> {a, b} \<and> fst p \<in> set arr \<and> snd p \<in> set arr \<and>
             pairKey (idC (heap wP (fst p))) (idC (heap wP (snd p)))
               \<noteq> pairKey (idC (heap wP a)) (idC (heap wP b))"
        using others by (simp add: sameStatic_ids [OF stwP] K_def)
      show "inj_on (\<lambda>r. idC (heap wP r)) (set arr)"
        using inj by (simp add: sameStatic_ids [OF stwP])
    qed (rule mem)+
    then show ?thesis using sA by simp
  qed
  have h1: "holds w1 a b = (verdict w a b \<or> holds w a b)"
    "holds w1 b a = (verdict w a b \<or> holds w b a)"
    "pairEvents a b (events w1)
       = pairEvents a b (events w) @
         (if verdict w a b
          then (if holds w a b then [(OnStay, a, b), (OnStay, b, a)]
                else [(OnEnter, a, b), (OnEnter, b, a)])
          else [])"
    "pairKey (idC (heap w1 a)) (idC (heap w1 b)) \<in> cur \<longleftrightarrow> verdict w a b"
    using view1 viewP by (simp_all add: pairView_def split: if_splits)
  \<comment> \<open>the exit pass\<close>
  obtain pre mid post where arr: "arr = pre @ a # mid @ b # post"
    using pairsOf_split [OF pair'] by blast
  have d': "distinct (pre @ a # mid @ b # post)"
    using d arr by simp
  have rega: "map_of (colliders w1) (idC (heap w1 a)) = Some a"
    "\<forall>k. map_of (colliders w1) k = Some a \<longrightarrow> k = idC (heap w1 a)"
    using sameStatic_lookup [OF stw1 registryOk_lookup [OF ok]] mem(1) regset by simp_all
  have regb: "map_of (colliders w1) (idC (heap w1 b)) = Some b"
    "\<forall>k. map_of (colliders w1) k = Some b \<longrightarrow> k = idC (heap w1 b)"
    using sameStatic_lookup [OF stw1 registryOk_lookup [OF ok]] mem(2) regset by simp_all
  have exa: "onCollisionExit (heap w1 a)" and exb: "onCollisionExit (heap w1 b)"
    using ha hb stw1 by (simp_all add: handlersInstalled_def sameStatic_def)
  note exit = exitPass_pair_view [OF d' rega regb exa exb sets1, of cur, folded arr w']
  show "pairEvents a b (events w')
           = pairEvents a b (events w) @
             (if verdict w a b
              then (if holds w a b then [(OnStay, a, b), (OnStay, b, a)]
                    else [(OnEnter, a, b), (OnEnter, b, a)])
              else (if holds w a b then [(OnExit, a, b), (OnExit, b, a)] else []))"
    using exit(1) sym by (simp add: h1)
  show "holds w' a b = verdict w a b"
    using exit(2) by (auto simp add: h1)
  show "holds w' b a = verdict w a b"
    using exit(3) by (auto simp add: h1)
qed

subsection \<open>A run\<close>

lemma update_sameStatic: "sameStatic w (snd (update w))"
proof -
  define arr where "arr = map snd (colliders w)"
  define w0 where "w0 = foldl refreshPosition w arr"
  obtain e w1 cur where loop: "sweep (pairsOf arr) (w0, {}) = (e, w1, cur)"
    by (cases "sweep (pairsOf arr) (w0, {})")
  have st0: "sameStatic w w0"
    unfolding w0_def by (rule refreshAll_proj)
  have "sameStatic w0 w1"
    using sweep_sameStatic [of w0 "pairsOf arr" "{}"] loop by simp
  then have st1: "sameStatic w w1"
    using st0 by (blast intro: sameStatic_trans)
  have "sameStatic w1 (foldl (exitStep cur) w1 arr)"
    by (rule exitPass_sameStatic)
  then have st2: "sameStatic w (foldl (exitStep cur) w1 arr)"
    using st1 by (blast intro: sameStatic_trans)
  show ?thesis
    using loop st1 st2
    by (cases e) (simp_all add: update_def outerLoop_sweep arr_def [symmetric] w0_def [symmetric])
qed

lemma update_setsOk:
  assumes "setsOk w"
  shows "setsOk (snd (update w))"
proof -
  define arr where "arr = map snd (colliders w)"
  define w0 where "w0 = foldl refreshPosition w arr"
  obtain e w1 cur where loop: "sweep (pairsOf arr) (w0, {}) = (e, w1, cur)"
    by (cases "sweep (pairsOf arr) (w0, {})")
  have "setsOk w0"
    using assms by (simp add: setsOk_def w0_def refreshAll_proj)
  then have s1: "setsOk w1"
    using sweep_setsOk [of w0 "pairsOf arr" "{}"] loop by simp
  then have s2: "setsOk (foldl (exitStep cur) w1 arr)"
    by (rule exitPass_setsOk)
  show ?thesis
    using loop s1 s2
    by (cases e) (simp_all add: update_def outerLoop_sweep arr_def [symmetric] w0_def [symmetric])
qed

lemma sameStatic_keyUnshared:
  "sameStatic w w' \<Longrightarrow> keyUnshared w' a b = keyUnshared w a b"
  by (simp add: sameStatic_def keyUnshared_def)

lemma move_sameStatic:
  "sameStatic w (exec w (MoveTo t p))" "sameStatic w (exec w (SetEnabled r v))"
  by (simp_all add: sameStatic_def)

lemma run_Cons: "run w (act # acts) = run (exec w act) acts"
  by (simp add: run_def)

text \<open>
  Over a quiet run the callbacks of such a pair are the lifecycle of the specification,
  run on the overlap answers of the ticks.
\<close>

theorem lifecycle_run:
  assumes "registryOk w" and "setsOk w"
    and "(a, b) \<in> set (pairsOf (map snd (colliders w)))"
    and "keyUnshared w a b"
    and "holds w a b = holds w b a"
    and "handlersInstalled w a" and "handlersInstalled w b"
    and "quietRun w acts"
  shows "pairEvents a b (events (run w acts))
           = pairEvents a b (events w) @ specLifecycle a b (holds w a b) (verdicts w acts a b)"
  using assms
proof (induction acts arbitrary: w)
  case Nil
  then show ?case by (simp add: run_def)
next
  case (Cons act acts)
  show ?case
  proof (cases act)
    case Tick
    obtain w' where tick: "update w = (None, w')"
      using Cons.prems(8) Tick by (cases "update w") simp
    have w': "exec w act = w'" using Tick tick by simp
    have st: "sameStatic w w'"
      using update_sameStatic [of w] tick by simp
    note one = lifecycle_tick [OF Cons.prems(1-7) tick]
    have "pairEvents a b (events (run w' acts))
            = pairEvents a b (events w') @ specLifecycle a b (holds w' a b) (verdicts w' acts a b)"
    proof (rule Cons.IH)
      show "registryOk w'" using update_registryOk [OF Cons.prems(1)] tick by simp
      show "setsOk w'" using update_setsOk [OF Cons.prems(2)] tick by simp
      show "(a, b) \<in> set (pairsOf (map snd (colliders w')))"
        using Cons.prems(3) st by (simp add: sameStatic_def)
      show "keyUnshared w' a b"
        using Cons.prems(4) sameStatic_keyUnshared [OF st] by simp
      show "holds w' a b = holds w' b a" using one by simp
      show "handlersInstalled w' a" "handlersInstalled w' b"
        using Cons.prems(6,7) sameStatic_handlers [OF st] by simp_all
      show "quietRun w' acts" using Cons.prems(8) Tick w' by simp
    qed
    moreover have "run w (act # acts) = run w' acts"
      by (simp only: run_Cons w')
    moreover have "verdicts w (act # acts) a b = verdict w a b # verdicts w' acts a b"
      using Tick w' by simp
    ultimately show ?thesis
      using one(1,2) by simp
  next
    case (MoveTo t p)
    let ?w = "exec w (MoveTo t p)"
    have st: "sameStatic w ?w" by (rule move_sameStatic)
    have same: "holds ?w a b = holds w a b" "holds ?w b a = holds w b a" "events ?w = events w"
      by (simp_all add: holds_def)
    have "pairEvents a b (events (run ?w acts))
            = pairEvents a b (events ?w) @ specLifecycle a b (holds ?w a b) (verdicts ?w acts a b)"
    proof (rule Cons.IH)
      show "registryOk ?w" using Cons.prems(1) by (rule exec_registryOk)
      show "setsOk ?w" using Cons.prems(2) by (simp add: setsOk_def)
      show "(a, b) \<in> set (pairsOf (map snd (colliders ?w)))" using Cons.prems(3) by simp
      show "keyUnshared ?w a b"
        using Cons.prems(4) sameStatic_keyUnshared [OF st] by simp
      show "holds ?w a b = holds ?w b a" using Cons.prems(5) same by simp
      show "handlersInstalled ?w a" "handlersInstalled ?w b"
        using Cons.prems(6,7) sameStatic_handlers [OF st] by simp_all
      show "quietRun ?w acts" using Cons.prems(8) MoveTo by simp
    qed
    moreover have "run w (act # acts) = run ?w acts"
      by (simp only: run_Cons MoveTo)
    moreover have "verdicts w (act # acts) a b = verdicts ?w acts a b"
      by (simp only: MoveTo verdicts.simps)
    ultimately show ?thesis
      using same by simp
  next
    case (SetEnabled r v)
    let ?w = "exec w (SetEnabled r v)"
    have st: "sameStatic w ?w" by (rule move_sameStatic)
    have same: "holds ?w a b = holds w a b" "holds ?w b a = holds w b a" "events ?w = events w"
      by (simp_all add: holds_def)
    have "pairEvents a b (events (run ?w acts))
            = pairEvents a b (events ?w) @ specLifecycle a b (holds ?w a b) (verdicts ?w acts a b)"
    proof (rule Cons.IH)
      show "registryOk ?w" using Cons.prems(1) by (rule exec_registryOk)
      show "setsOk ?w" using Cons.prems(2) by (simp add: setsOk_def)
      show "(a, b) \<in> set (pairsOf (map snd (colliders ?w)))" using Cons.prems(3) by simp
      show "keyUnshared ?w a b"
        using Cons.prems(4) sameStatic_keyUnshared [OF st] by simp
      show "holds ?w a b = holds ?w b a" using Cons.prems(5) same by simp
      show "handlersInstalled ?w a" "handlersInstalled ?w b"
        using Cons.prems(6,7) sameStatic_handlers [OF st] by simp_all
      show "quietRun ?w acts" using Cons.prems(8) SetEnabled by simp
    qed
    moreover have "run w (act # acts) = run ?w acts"
      by (simp only: run_Cons SetEnabled)
    moreover have "verdicts w (act # acts) a b = verdicts ?w acts a b"
      by (simp only: SetEnabled verdicts.simps)
    ultimately show ?thesis
      using same by simp
  next
    case (AddCollider r)
    then show ?thesis using Cons.prems(8) by simp
  next
    case (RemoveCollider k)
    then show ?thesis using Cons.prems(8) by simp
  qed
qed

text \<open>
  The transition of the claim: no overlap, then \<open>n + 1\<close> overlapping ticks, then no
  overlap, is one enter, \<open>n\<close> stays and one exit on each side.
\<close>

lemma specLifecycle_contact:
  "specLifecycle a b True (replicate n True @ [False])
     = concat (replicate n [(OnStay, a, b), (OnStay, b, a)]) @ [(OnExit, a, b), (OnExit, b, a)]"
  by (induction n) simp_all

lemma specLifecycle_transition:
  "specLifecycle a b False (False # replicate (Suc n) True @ [False])
     = [(OnEnter, a, b), (OnEnter, b, a)] @
       concat (replicate n [(OnStay, a, b), (OnStay, b, a)]) @
       [(OnExit, a, b), (OnExit, b, a)]"
  by (simp add: specLifecycle_contact)

subsection \<open>Ids without the separator\<close>

lemma separator_split:
  assumes "CHR '':'' \<notin> set u" and "CHR '':'' \<notin> set u'"
    and "u @ '':'' @ v = u' @ '':'' @ v'"
  shows "u = u' \<and> v = v'"
  using assms
proof (induction u arbitrary: u')
  case Nil
  then show ?case by (cases u') auto
next
  case (Cons c cs)
  then show ?case by (cases u') auto
qed

lemma pairKey_plain:
  assumes "CHR '':'' \<notin> set x" and "CHR '':'' \<notin> set y"
    and "CHR '':'' \<notin> set x'" and "CHR '':'' \<notin> set y'"
    and "pairKey x y = pairKey x' y'"
  shows "{x, y} = {x', y'}"
proof -
  obtain u v where uv: "pairKey x y = u @ '':'' @ v" "{x, y} = {u, v}" "CHR '':'' \<notin> set u"
    using assms(1,2) by (cases "x < y") (auto simp add: pairKey_def)
  obtain u' v' where uv': "pairKey x' y' = u' @ '':'' @ v'" "{x', y'} = {u', v'}"
    "CHR '':'' \<notin> set u'"
    using assms(3,4) by (cases "x' < y'") (auto simp add: pairKey_def)
  have "u = u' \<and> v = v'"
    using separator_split [OF uv(3) uv'(3), of v v'] uv(1) uv'(1) assms(5) by metis
  then show ?thesis using uv(2) uv'(2) by simp
qed

text \<open>With such ids no two pairs of the registry have the same key.\<close>

lemma plainIds_keyUnshared:
  assumes ok: "registryOk w" and plain: "plainIds w"
    and pair: "(a, b) \<in> set (pairsOf (map snd (colliders w)))"
  shows "keyUnshared w a b"
proof -
  define arr where "arr = map snd (colliders w)"
  have d: "distinct arr"
    unfolding arr_def using ok by (rule registryOk_distinct_refs)
  have pair': "(a, b) \<in> set (pairsOf arr)" using pair by (simp add: arr_def)
  have free: "CHR '':'' \<notin> set (idC (heap w r))" if "r \<in> set arr" for r
  proof -
    from that obtain k where k: "(k, r) \<in> set (colliders w)" by (auto simp add: arr_def)
    then have "idC (heap w r) = k"
      using ok by (auto simp add: registryOk_def list_all_iff)
    then show ?thesis using k plain by (auto simp add: plainIds_def list_all_iff)
  qed
  have differ: "idC (heap w x) \<noteq> idC (heap w y)" if "x \<in> set arr" "y \<in> set arr" "x \<noteq> y" for x y
    using registryOk_ids_differ [OF ok] that by (simp add: arr_def)
  have "p = (a, b) \<or>
        pairKey (idC (heap w (fst p))) (idC (heap w (snd p)))
          \<noteq> pairKey (idC (heap w a)) (idC (heap w b))"
    if p: "p \<in> set (pairsOf arr)" for p
  proof (rule disjCI)
    assume "\<not> pairKey (idC (heap w (fst p))) (idC (heap w (snd p)))
          \<noteq> pairKey (idC (heap w a)) (idC (heap w b))"
    then have eq: "pairKey (idC (heap w (fst p))) (idC (heap w (snd p)))
          = pairKey (idC (heap w a)) (idC (heap w b))" by simp
    have "(fst p, snd p) \<in> set (pairsOf arr)" using p by simp
    then have m: "fst p \<in> set arr" "snd p \<in> set arr"
      using pairsOf_refs by blast+
    have mab: "a \<in> set arr" "b \<in> set arr"
      using pairsOf_refs [OF pair'] by simp_all
    have ids: "{idC (heap w (fst p)), idC (heap w (snd p))} = {idC (heap w a), idC (heap w b)}"
      using pairKey_plain [OF free [OF m(1)] free [OF m(2)] free [OF mab(1)] free [OF mab(2)] eq] .
    have "(fst p = a \<and> snd p = b) \<or> (fst p = b \<and> snd p = a)"
      using ids differ m mab by (auto simp add: doubleton_eq_iff)
    moreover have "(b, a) \<notin> set (pairsOf arr)"
      using pairsOf_one_order [OF d pair'] .
    ultimately show "p = (a, b)"
      using p by (cases p) auto
  qed
  then show ?thesis
    by (simp add: keyUnshared_def list_all_iff arr_def)
qed

subsection \<open>The transition of the specification\<close>

lemma specLifecycle_alternates:
  assumes "a \<noteq> b"
  shows "enterExitAlternate was (callbacksOn a (specLifecycle a b was overlaps)) \<and>
         enterExitAlternate was (callbacksOn b (specLifecycle a b was overlaps))"
  using assms by (induction overlaps arbitrary: was) (simp_all add: callbacksOn_def)

text \<open>
  The transition of the specification, for such a pair on a quiet run: out of contact,
  a tick without overlap, \<open>n + 1\<close> ticks with overlap and a tick without give one
  \<open>onCollisionEnter\<close>, \<open>n\<close> \<open>onCollisionStay\<close> and one \<open>onCollisionExit\<close> on
  each side, in this order.
\<close>

theorem lifecycle_transition:
  assumes "registryOk w" and "setsOk w"
    and "(a, b) \<in> set (pairsOf (map snd (colliders w)))"
    and "keyUnshared w a b"
    and "\<not> holds w a b" and "\<not> holds w b a"
    and "handlersInstalled w a" and "handlersInstalled w b"
    and "quietRun w acts"
    and "verdicts w acts a b = False # replicate (Suc n) True @ [False]"
  shows "pairEvents a b (events (run w acts))
           = pairEvents a b (events w) @
             [(OnEnter, a, b), (OnEnter, b, a)] @
             concat (replicate n [(OnStay, a, b), (OnStay, b, a)]) @
             [(OnExit, a, b), (OnExit, b, a)]"
proof -
  have sym: "holds w a b = holds w b a" using assms(5,6) by simp
  show ?thesis
    using lifecycle_run [OF assms(1-4) sym assms(7-9)] assms(5)
    by (simp only: assms(10) specLifecycle_transition)
qed

text \<open>
  On such a run no side of the pair gets \<open>onCollisionEnter\<close> twice without an
  \<open>onCollisionExit\<close> between them, and \<open>onCollisionStay\<close> and \<open>onCollisionExit\<close>
  come only in contact.
\<close>

theorem lifecycle_alternates:
  assumes "registryOk w" and "setsOk w"
    and "(a, b) \<in> set (pairsOf (map snd (colliders w)))"
    and "keyUnshared w a b"
    and "holds w a b = holds w b a"
    and "handlersInstalled w a" and "handlersInstalled w b"
    and "quietRun w acts"
  shows "\<exists>new. pairEvents a b (events (run w acts)) = pairEvents a b (events w) @ new \<and>
           enterExitAlternate (holds w a b) (callbacksOn a new) \<and>
           enterExitAlternate (holds w b a) (callbacksOn b new)"
proof -
  have d: "distinct (map snd (colliders w))"
    using assms(1) by (rule registryOk_distinct_refs)
  have ne: "a \<noteq> b"
    using pairsOf_differ [OF d assms(3)] .
  show ?thesis
    using lifecycle_run [OF assms] specLifecycle_alternates [OF ne] assms(5) by simp
qed

subsection \<open>The two spheres, two ticks\<close>

lemma twoSpheres_wellformed:
  "registryOk twoSpheres" "setsOk twoSpheres"
  "(0, 1) \<in> set (pairsOf (map snd (colliders twoSpheres)))"
  "keyUnshared twoSpheres 0 1" "plainIds twoSpheres"
  "\<not> holds twoSpheres 0 1" "\<not> holds twoSpheres 1 0"
  "handlersInstalled twoSpheres 0" "handlersInstalled twoSpheres 1"
  by (simp_all add: registryOk_def setsOk_def keyUnshared_def plainIds_def holds_def
      handlersInstalled_def twoSpheres_def newCollider_def)

lemma twoSpheres_verdict: "verdict twoSpheres 0 1"
  by (simp add: verdict_def twoSpheres_def newCollider_def system_defs vec_defs shape_defs)

lemma twoSpheres_second_tick:
  "fst (update twoSpheresTicked) = None" "\<not> verdict twoSpheresTicked 0 1"
  by (simp_all add: verdict_def twoSpheresTicked_def newCollider_def system_defs vec_defs
      shape_defs split_beta)

lemma twoSpheres_lifecycle:
  "quietRun twoSpheres [Tick, Tick] \<and>
   verdicts twoSpheres [Tick, Tick] 0 1 = [True, False] \<and>
   pairEvents 0 1 (events (run twoSpheres [Tick, Tick]))
     = [(OnEnter, 0, 1), (OnEnter, 1, 0), (OnExit, 0, 1), (OnExit, 1, 0)]"
proof -
  have q: "quietRun twoSpheres [Tick, Tick]"
    by (simp add: twoSpheres_tick twoSpheres_second_tick)
  have v: "verdicts twoSpheres [Tick, Tick] 0 1 = [True, False]"
    by (simp only: verdicts.simps exec.simps twoSpheres_tick snd_conv twoSpheres_verdict
        twoSpheres_second_tick simp_thms)
  have sym: "holds twoSpheres 0 1 = holds twoSpheres 1 0"
    using twoSpheres_wellformed(6,7) by simp
  have e: "pairEvents 0 1 (events twoSpheres) = []"
    by (simp add: pairEvents_def twoSpheres_def)
  show ?thesis
    using lifecycle_run [OF twoSpheres_wellformed(1-4) sym twoSpheres_wellformed(8,9) q]
      twoSpheres_wellformed(6) q v e
    by simp
qed

text \<open>The four zones: the pair of \<open>a:b\<close> and \<open>c\<close> shares its key.\<close>

lemma fourZones_key_shared: "\<not> keyUnshared fourZones 2 3 \<and> \<not> plainIds fourZones"
  by (simp add: keyUnshared_def plainIds_def fourZones_def zone_defs pairKey_def)

section \<open>The lifecycle of a pair whose key is shared\<close>

lemma zones_refresh_initial:
  "foldl refreshPosition fourZones [0, 1, 2, 3] = zoneWorld (Vector3 20 0 0) [] [] [] [] []"
  by (simp add: fourZones_def zone_defs refreshPosition_def
      updateWorldPosition_def Collider_updateWorldPosition_def vec_defs fun_eq_iff)

lemma zones_refresh_moved:
  "foldl refreshPosition (exec (zoneWorld p a0 a1 a2 a3 evs) (MoveTo 3 q)) [0, 1, 2, 3]
     = zoneWorld q a0 a1 a2 a3 evs"
  by (simp add: zone_defs refreshPosition_def
      updateWorldPosition_def Collider_updateWorldPosition_def vec_defs fun_eq_iff)

lemma zones_pair01_enter:
  "pairStep 0 1 (zoneWorld p [] [] a2 a3 evs, cur)
     = (None, zoneWorld p [''b:c''] [''a''] a2 a3
                (evs @ [CollisionEnter 0 1 pushLeft, CollisionEnter 1 0 pushRight]),
        insert ''a:b:c'' cur)"
  by (simp add: zone_defs pair_defs vec_defs shape_defs fun_eq_iff)

lemma zones_pair01_stay:
  "pairStep 0 1 (zoneWorld p [''b:c''] [''a''] a2 a3 evs, cur)
     = (None, zoneWorld p [''b:c''] [''a''] a2 a3
                (evs @ [CollisionStay 0 1 pushLeft, CollisionStay 1 0 pushRight]),
        insert ''a:b:c'' cur)"
  by (simp add: zone_defs pair_defs vec_defs shape_defs fun_eq_iff)

lemma zones_pair23_enter:
  "pairStep 2 3 (zoneWorld (Vector3 11 0 0) a0 a1 [] [] evs, cur)
     = (None, zoneWorld (Vector3 11 0 0) a0 a1 [''c''] [''a:b'']
                (evs @ [CollisionEnter 2 3 pushLeft, CollisionEnter 3 2 pushRight]),
        insert ''a:b:c'' cur)"
  by (simp add: zone_defs pair_defs vec_defs shape_defs fun_eq_iff)

lemma zones_pair23_apart:
  "pairStep 2 3 (zoneWorld (Vector3 20 0 0) a0 a1 a2 a3 evs, cur)
     = (None, zoneWorld (Vector3 20 0 0) a0 a1 a2 a3 evs, cur)"
  by (simp add: zone_defs pair_defs vec_defs shape_defs fun_eq_iff)

lemma zones_cross_pairs:
  "pairStep 0 2 (zoneWorld p a0 a1 a2 a3 evs, cur) = (None, zoneWorld p a0 a1 a2 a3 evs, cur)"
  "pairStep 0 3 (zoneWorld p a0 a1 a2 a3 evs, cur) = (None, zoneWorld p a0 a1 a2 a3 evs, cur)"
  "pairStep 1 2 (zoneWorld p a0 a1 a2 a3 evs, cur) = (None, zoneWorld p a0 a1 a2 a3 evs, cur)"
  "pairStep 1 3 (zoneWorld p a0 a1 a2 a3 evs, cur) = (None, zoneWorld p a0 a1 a2 a3 evs, cur)"
  by (simp_all add: zone_defs pairStep_def checkCollision_def canCollideWith_def)

lemma zones_exit_first_only:
  "foldl (exitStep (insert ''a:b:c'' cur)) (zoneWorld p [''b:c''] [''a''] [] [] evs) [0, 1, 2, 3]
     = zoneWorld p [''b:c''] [''a''] [] [] evs"
  by (simp add: zone_defs exitStep_def pairKey_def fun_eq_iff)

lemma zones_exit_none:
  "foldl (exitStep (insert ''a:b:c'' cur)) (zoneWorld p [''b:c''] [''a''] [''c''] [''a:b''] evs) [0, 1, 2, 3]
     = zoneWorld p [''b:c''] [''a''] [''c''] [''a:b''] evs"
  by (simp add: zone_defs exitStep_def pairKey_def fun_eq_iff)

lemma zones_registry:
  "map snd (colliders fourZones) = [0, 1, 2, 3]"
  "map snd (colliders (exec (zoneWorld p a0 a1 a2 a3 evs) (MoveTo 3 q))) = [0, 1, 2, 3]"
  by (simp_all add: fourZones_def zoneWorld_def)

lemma fourZones_tick1:
  "update fourZones = (None, zoneWorld (Vector3 20 0 0) [''b:c''] [''a''] [] []
      [CollisionEnter 0 1 pushLeft, CollisionEnter 1 0 pushRight])"
  unfolding update_def Let_def zones_registry
  by (simp only: zones_refresh_initial outerLoop.simps innerLoop.simps zones_pair01_enter
      zones_cross_pairs zones_pair23_apart zones_exit_first_only prod.case option.case
      append_Nil append_Cons)

lemma fourZones_tick2:
  "update (exec (zoneWorld (Vector3 20 0 0) [''b:c''] [''a''] [] [] evs) (MoveTo 3 (Vector3 11 0 0)))
     = (None, zoneWorld (Vector3 11 0 0) [''b:c''] [''a''] [''c''] [''a:b'']
                ((evs @ [CollisionStay 0 1 pushLeft, CollisionStay 1 0 pushRight])
                   @ [CollisionEnter 2 3 pushLeft, CollisionEnter 3 2 pushRight]))"
  unfolding update_def Let_def zones_registry
  by (simp only: zones_refresh_moved outerLoop.simps innerLoop.simps zones_pair01_stay
      zones_cross_pairs zones_pair23_enter zones_exit_none prod.case option.case)

lemma fourZones_tick3:
  "update (exec (zoneWorld (Vector3 11 0 0) [''b:c''] [''a''] [''c''] [''a:b''] evs)
             (MoveTo 3 (Vector3 20 0 0)))
     = (None, zoneWorld (Vector3 20 0 0) [''b:c''] [''a''] [''c''] [''a:b'']
                (evs @ [CollisionStay 0 1 pushLeft, CollisionStay 1 0 pushRight]))"
  unfolding update_def Let_def zones_registry
  by (simp only: zones_refresh_moved outerLoop.simps innerLoop.simps zones_pair01_stay
      zones_cross_pairs zones_pair23_apart zones_exit_none prod.case option.case)

lemma fourZones_run2:
  "run fourZones [Tick, MoveTo 3 (Vector3 11 0 0), Tick]
     = zoneWorld (Vector3 11 0 0) [''b:c''] [''a''] [''c''] [''a:b'']
         [CollisionEnter 0 1 pushLeft, CollisionEnter 1 0 pushRight,
          CollisionStay 0 1 pushLeft, CollisionStay 1 0 pushRight,
          CollisionEnter 2 3 pushLeft, CollisionEnter 3 2 pushRight]"
  using fourZones_tick2 [of "[CollisionEnter 0 1 pushLeft, CollisionEnter 1 0 pushRight]"]
  by (simp only: run_def foldl.simps exec.simps(1) fourZones_tick1 snd_conv append_Cons append_Nil)

lemma fourZones_run3:
  "run fourZones [Tick, MoveTo 3 (Vector3 11 0 0), Tick, MoveTo 3 (Vector3 20 0 0), Tick]
     = zoneWorld (Vector3 20 0 0) [''b:c''] [''a''] [''c''] [''a:b'']
         [CollisionEnter 0 1 pushLeft, CollisionEnter 1 0 pushRight,
          CollisionStay 0 1 pushLeft, CollisionStay 1 0 pushRight,
          CollisionEnter 2 3 pushLeft, CollisionEnter 3 2 pushRight,
          CollisionStay 0 1 pushLeft, CollisionStay 1 0 pushRight]"
proof -
  have split: "run fourZones [Tick, MoveTo 3 (Vector3 11 0 0), Tick, MoveTo 3 (Vector3 20 0 0), Tick]
      = snd (update (exec (run fourZones [Tick, MoveTo 3 (Vector3 11 0 0), Tick])
                       (MoveTo 3 (Vector3 20 0 0))))"
    by (simp only: run_def foldl.simps exec.simps(1))
  show ?thesis
    unfolding split fourZones_run2
    by (simp only: fourZones_tick3 snd_conv append_Cons append_Nil)
qed

text \<open>
  Claim C5 says that a pair that stops overlapping gets its \<open>onExit\<close> on the first
  tick without overlap. For a pair whose key no other pair of the registry has this is so,
  see \<open>lifecycle_tick\<close>, \<open>lifecycle_run\<close> and \<open>lifecycle_transition\<close>, and ids
  without a colon give every pair such a key, see \<open>plainIds_keyUnshared\<close>. But the
  tick finds ended collisions through a key built from the two ids with a colon between
  them, and the pairs \<open>a\<close>, \<open>b:c\<close> and \<open>a:b\<close>, \<open>c\<close> have the same key
  \<open>a:b:c\<close>. In \<open>fourZones\<close> the first pair overlaps all the time. The second pair
  is apart on the first tick; then the parent of \<open>c\<close> moves to \<open>x = 11\<close> and the
  second tick calls \<open>onEnter\<close> on both; then it moves back to \<open>x = 20\<close>, the test
  of the pair answers false, and the third tick calls \<open>onStay\<close> for the first pair and
  nothing for the second: no \<open>onExit\<close>, and \<open>a:b\<close> and \<open>c\<close> keep each other's
  id in their active sets.
\<close>

theorem C5_pair_key_collision:
  "pairKey ''a'' ''b:c'' = pairKey ''a:b'' ''c'' \<and>
   fst (checkCollision (run fourZones [Tick, MoveTo 3 (Vector3 11 0 0)]) 2 3) \<and>
   \<not> fst (checkCollision
            (run fourZones [Tick, MoveTo 3 (Vector3 11 0 0), Tick, MoveTo 3 (Vector3 20 0 0)]) 2 3) \<and>
   events (run fourZones [Tick, MoveTo 3 (Vector3 11 0 0), Tick, MoveTo 3 (Vector3 20 0 0), Tick])
     = [CollisionEnter 0 1 pushLeft, CollisionEnter 1 0 pushRight,
        CollisionStay 0 1 pushLeft, CollisionStay 1 0 pushRight,
        CollisionEnter 2 3 pushLeft, CollisionEnter 3 2 pushRight,
        CollisionStay 0 1 pushLeft, CollisionStay 1 0 pushRight] \<and>
   activeCollisions
     (heap (run fourZones [Tick, MoveTo 3 (Vector3 11 0 0), Tick, MoveTo 3 (Vector3 20 0 0), Tick]) 2)
     = [''c''] \<and>
   activeCollisions
     (heap (run fourZones [Tick, MoveTo 3 (Vector3 11 0 0), Tick, MoveTo 3 (Vector3 20 0 0), Tick]) 3)
     = [''a:b'']"
proof -
  have k: "pairKey ''a'' ''b:c'' = pairKey ''a:b'' ''c''"
    by (simp add: pairKey_def)
  have r1: "run fourZones [Tick, MoveTo 3 (Vector3 11 0 0)]
      = exec (zoneWorld (Vector3 20 0 0) [''b:c''] [''a''] [] []
          [CollisionEnter 0 1 pushLeft, CollisionEnter 1 0 pushRight]) (MoveTo 3 (Vector3 11 0 0))"
    by (simp only: run_def foldl.simps exec.simps(1) fourZones_tick1 snd_conv)
  have r2: "run fourZones [Tick, MoveTo 3 (Vector3 11 0 0), Tick, MoveTo 3 (Vector3 20 0 0)]
      = exec (run fourZones [Tick, MoveTo 3 (Vector3 11 0 0), Tick]) (MoveTo 3 (Vector3 20 0 0))"
    by (simp only: run_def foldl.simps)
  have near: "fst (checkCollision (run fourZones [Tick, MoveTo 3 (Vector3 11 0 0)]) 2 3)"
    unfolding r1
    by (simp add: zone_defs checkCollision_def canCollideWith_def refreshPosition_def
        updateWorldPosition_def Collider_updateWorldPosition_def checkCollision_types_def
        intersectsSphere_def SphereCollider_intersectsSphere_def vec_defs shape_defs)
  have apart: "\<not> fst (checkCollision
      (run fourZones [Tick, MoveTo 3 (Vector3 11 0 0), Tick, MoveTo 3 (Vector3 20 0 0)]) 2 3)"
    unfolding r2 fourZones_run2
    by (simp add: zone_defs checkCollision_def canCollideWith_def refreshPosition_def
        updateWorldPosition_def Collider_updateWorldPosition_def checkCollision_types_def
        intersectsSphere_def SphereCollider_intersectsSphere_def vec_defs shape_defs)
  show ?thesis
    using k near apart unfolding fourZones_run3
    by (simp add: zoneWorld_def)
qed

end
